theory Spec2Isabelle
  imports Main
begin

section \<open>Data model of the IR touched by InjectDUTHierarchy\<close>

text \<open>
  Modelled from the spec: the types of the IR, which are declared outside
  \<^verbatim>\<open>lib/Dialect/FIRRTL/Transforms/InjectDUTHierarchy.cpp\<close>. The pass works on a circuit: a
  list of top-level operations (modules and hierarchical paths) carrying a list of annotations.
  Only the parts of the IR that the pass reads or writes are represented.
\<close>

text \<open>
  The value of an annotation member. \<open>SymbolRefAttr\<close> is the flat symbol reference a
  \<^verbatim>\<open>circt.nonlocal\<close> member holds.
\<close>

datatype MemberAttr = StringAttr string | BoolAttr bool | SymbolRefAttr string

text \<open>An annotation is a dictionary of named members.\<close>

type_synonym Annotation = "(string \<times> MemberAttr) list"

text \<open>
  One element of a hierarchical path's namepath: an inner reference (module, inner symbol) or
  a flat reference to a module.
\<close>

datatype NamepathAttr = InnerRefAttr string string | FlatSymbolRefAttr string

datatype Direction = In | Out

record PortInfo =
  pName :: string
  pDirection :: Direction
  pSym :: "string option"
  pAnnotations :: "Annotation list"

text \<open>
  A value is a block argument of the enclosing module (one per port) or a result of an
  instance (one per port of the instantiated module), the instance given by its name.
\<close>

datatype Value = Argument nat | InstanceResult string nat

record InstanceOp =
  instModuleName :: string
  instName :: string
  instInnerSym :: "string option"

text \<open>
  The operations of a module body. \<open>Connect dst src\<close> drives \<open>dst\<close> from \<open>src\<close>.
  \<open>RWProbe m s\<close> holds the inner reference (module \<open>m\<close>, symbol \<open>s\<close>) of its target.
  \<open>Region\<close> stands for an operation with a nested block, \<open>Other\<close> for any other one.
\<close>

datatype Operation =
    Instance InstanceOp
  | Connect Value Value
  | RWProbe string string
  | Region string "Operation list"
  | Other string

datatype Visibility = Public | Private | Nested

record FModuleOp =
  mName :: string
  mVisibility :: Visibility
  mConvention :: string
  mPorts :: "PortInfo list"
  mAnnotations :: "Annotation list"
  mBody :: "Operation list"

record HierPathOp =
  symName :: string
  namepath :: "NamepathAttr list"

datatype TopOp = Module FModuleOp | HierPath HierPathOp

record CircuitOp =
  cAnnotations :: "Annotation list"
  cBody :: "TopOp list"

section \<open>Annotations\<close>

text \<open>
  Modelled from the spec: the two annotation classes the pass looks for, the directive and the
  marker of the DUT. Both are declared in \<^verbatim>\<open>AnnotationDetails.h\<close>; the first is spelled
  out in the pass's own error messages. No property below depends on how they are spelled.
\<close>

definition injectDUTHierarchyAnnoClass :: string where
  "injectDUTHierarchyAnnoClass = ''sifive.enterprise.firrtl.InjectDUTHierarchyAnnotation''"

definition dutAnnoClass :: string where
  "dutAnnoClass = ''sifive.enterprise.firrtl.MarkDUTAnnotation''"

text \<open>
  Modelled from the spec: the metadata store of \<^verbatim>\<open>Annotations.h\<close>, whose entries expose
  named fields by key. \<^verbatim>\<open>anno.getMember<T>(name)\<close> is the member when it is present and of
  type \<open>T\<close>, null otherwise; \<^verbatim>\<open>anno.isClass(c)\<close> compares the member \<^verbatim>\<open>class\<close>.
\<close>

definition getMemberString :: "Annotation \<Rightarrow> string \<Rightarrow> string option" where
  "getMemberString anno k =
     (case map_of anno k of Some (StringAttr s) \<Rightarrow> Some s | _ \<Rightarrow> None)"

definition getMemberBool :: "Annotation \<Rightarrow> string \<Rightarrow> bool option" where
  "getMemberBool anno k =
     (case map_of anno k of Some (BoolAttr b) \<Rightarrow> Some b | _ \<Rightarrow> None)"

definition getMemberSymbolRef :: "Annotation \<Rightarrow> string \<Rightarrow> string option" where
  "getMemberSymbolRef anno k =
     (case map_of anno k of Some (SymbolRefAttr s) \<Rightarrow> Some s | _ \<Rightarrow> None)"

definition isClass :: "Annotation \<Rightarrow> string \<Rightarrow> bool" where
  "isClass anno c = (getMemberString anno ''class'' = Some c)"

text \<open>
  Modelled from the spec: \<^verbatim>\<open>anno.setMember(name, value)\<close>, which replaces the member's
  value, or adds the member.
\<close>

fun setMember :: "Annotation \<Rightarrow> string \<Rightarrow> MemberAttr \<Rightarrow> Annotation" where
  "setMember [] k v = [(k, v)]"
| "setMember ((k', v') # rest) k v =
     (if k' = k then (k, v) # rest else (k', v') # setMember rest k v)"

section \<open>Hierarchical paths\<close>

text \<open>
  Modelled from the spec: the accessors of \<^verbatim>\<open>hw::HierPathOp\<close> (\<^verbatim>\<open>modPart\<close>,
  \<^verbatim>\<open>root\<close>, \<^verbatim>\<open>leafMod\<close>, \<^verbatim>\<open>ref\<close>, \<^verbatim>\<open>isComponent\<close>, \<^verbatim>\<open>isModule\<close>), which are
  declared outside this file. Every locator names a module; the last locator is a component
  locator when it is an inner reference and a module locator otherwise.
\<close>

fun modPart :: "NamepathAttr \<Rightarrow> string" where
  "modPart (InnerRefAttr m s) = m"
| "modPart (FlatSymbolRefAttr m) = m"

definition root :: "HierPathOp \<Rightarrow> string option" where
  "root p = (case namepath p of [] \<Rightarrow> None | e # _ \<Rightarrow> Some (modPart e))"

definition leafMod :: "HierPathOp \<Rightarrow> string option" where
  "leafMod p = (case namepath p of [] \<Rightarrow> None | _ \<Rightarrow> Some (modPart (last (namepath p))))"

definition ref :: "HierPathOp \<Rightarrow> string option" where
  "ref p =
     (case namepath p of
        [] \<Rightarrow> None
      | _ \<Rightarrow> (case last (namepath p) of
                 InnerRefAttr m s \<Rightarrow> Some s
               | FlatSymbolRefAttr m \<Rightarrow> None))"

definition isComponent :: "HierPathOp \<Rightarrow> bool" where
  "isComponent p = (ref p \<noteq> None)"

definition isModule :: "HierPathOp \<Rightarrow> bool" where
  "isModule p = (\<not> isComponent p)"

text \<open>
  Modelled from the spec: \<^verbatim>\<open>NLATable::lookup\<close>, the query \<open>pathsTouching(module)\<close>. A path
  touches a module when the module is named by its root, by an interior locator or by its leaf.
\<close>

definition touches :: "string \<Rightarrow> HierPathOp \<Rightarrow> bool" where
  "touches m p = (m \<in> set (map modPart (namepath p)))"

section \<open>Symbol namespaces\<close>

text \<open>
  Modelled from the spec: \<^verbatim>\<open>Namespace::newName\<close> of \<^verbatim>\<open>Namespace.h\<close> (used through
  \<^verbatim>\<open>CircuitNamespace\<close> and \<^verbatim>\<open>hw::InnerSymbolNamespace\<close>). A namespace is the list of the
  names in use. \<open>allocate(hint)\<close> returns the hint when it is free, and otherwise the hint
  followed by an underscore and the least decimal index that makes it free; the name returned
  is reserved.
\<close>

definition digitChar :: "nat \<Rightarrow> char" where
  "digitChar d = char_of (48 + d)"

fun toDecimal :: "nat \<Rightarrow> string" where
  "toDecimal n =
     (if n < 10 then [digitChar n] else toDecimal (n div 10) @ [digitChar (n mod 10)])"

declare toDecimal.simps [simp del]

lemma toDecimal_not_Nil: "toDecimal n \<noteq> []"
  by (subst toDecimal.simps) simp

lemma digitChar_inj: "a < 10 \<Longrightarrow> b < 10 \<Longrightarrow> digitChar a = digitChar b \<Longrightarrow> a = b"
  by (simp add: digitChar_def char_of_eq_iff take_bit_eq_mod)

lemma toDecimal_inj: "toDecimal a = toDecimal b \<Longrightarrow> a = b"
proof (induction a arbitrary: b rule: toDecimal.induct)
  case (1 n)
  show ?case
  proof (cases "n < 10")
    case small: True
    show ?thesis
    proof (cases "b < 10")
      case True
      with small "1.prems" show ?thesis
        by (simp add: toDecimal.simps [of n] toDecimal.simps [of b] digitChar_inj)
    next
      case False
      with small "1.prems" toDecimal_not_Nil [of "b div 10"] show ?thesis
        by (simp add: toDecimal.simps [of n] toDecimal.simps [of b] Cons_eq_append_conv)
    qed
  next
    case big: False
    show ?thesis
    proof (cases "b < 10")
      case True
      with big "1.prems" toDecimal_not_Nil [of "n div 10"] show ?thesis
        by (simp add: toDecimal.simps [of n] toDecimal.simps [of b] append_eq_Cons_conv)
    next
      case False
      with big "1.prems" have q: "toDecimal (n div 10) = toDecimal (b div 10)"
        and r: "digitChar (n mod 10) = digitChar (b mod 10)"
        by (simp_all add: toDecimal.simps [of n] toDecimal.simps [of b])
      from "1.IH" [OF big q] have "n div 10 = b div 10" .
      moreover from r have "n mod 10 = b mod 10"
        by (auto intro: digitChar_inj)
      ultimately show ?thesis
        by (metis div_mult_mod_eq)
    qed
  qed
qed

lemma finite_used_indices: "finite {j. base @ toDecimal j \<in> set used}"
proof -
  have "inj (\<lambda>j. base @ toDecimal j)"
    by (rule injI) (simp add: toDecimal_inj)
  then have "finite ((\<lambda>j. base @ toDecimal j) -` set used)"
    by (rule finite_vimageI [rotated]) simp
  then show ?thesis by (simp add: vimage_def)
qed

function newNameLoop :: "string list \<Rightarrow> string \<Rightarrow> nat \<Rightarrow> string" where
  "newNameLoop used base i =
     (if base @ toDecimal i \<in> set used then newNameLoop used base (Suc i)
      else base @ toDecimal i)"
  by pat_completeness auto
termination
proof (relation "measure (\<lambda>(used, base, i). card {j. i \<le> j \<and> base @ toDecimal j \<in> set used})")
  show "wf (measure (\<lambda>(used, base, i). card {j. i \<le> j \<and> base @ toDecimal j \<in> set used}))"
    by simp
next
  fix used :: "string list" and base :: string and i :: nat
  assume taken: "base @ toDecimal i \<in> set used"
  have fin: "finite {j. i \<le> j \<and> base @ toDecimal j \<in> set used}"
    by (rule finite_subset [OF _ finite_used_indices [of base used]]) auto
  have "i \<in> {j. i \<le> j \<and> base @ toDecimal j \<in> set used}"
    and "i \<notin> {j. Suc i \<le> j \<and> base @ toDecimal j \<in> set used}"
    using taken by simp_all
  moreover have "{j. Suc i \<le> j \<and> base @ toDecimal j \<in> set used}
          \<subseteq> {j. i \<le> j \<and> base @ toDecimal j \<in> set used}"
    by auto
  ultimately have "{j. Suc i \<le> j \<and> base @ toDecimal j \<in> set used}
          \<subset> {j. i \<le> j \<and> base @ toDecimal j \<in> set used}"
    by blast
  then have "card {j. Suc i \<le> j \<and> base @ toDecimal j \<in> set used}
               < card {j. i \<le> j \<and> base @ toDecimal j \<in> set used}"
    by (rule psubset_card_mono [OF fin])
  then show "((used, base, Suc i), (used, base, i))
               \<in> measure (\<lambda>(used, base, i). card {j. i \<le> j \<and> base @ toDecimal j \<in> set used})"
    by simp
qed

declare newNameLoop.simps [simp del]

definition newName :: "string list \<Rightarrow> string \<Rightarrow> string \<times> string list" where
  "newName used hint =
     (if hint \<notin> set used then (hint, hint # used)
      else (let n = newNameLoop used (hint @ ''_'') 0 in (n, n # used)))"

section \<open>addHierarchy\<close>

text \<open>
  What stops the program instead of returning: a failed \<^verbatim>\<open>assert\<close>, a failed \<^verbatim>\<open>cast<>\<close>,
  an index past the end of a namepath, an inner reference built from a null symbol.
\<close>

datatype Abort = AssertionFailed | CastFailed | IndexOutOfRange | NullSymbol

text \<open>
  The \<^verbatim>\<open>while\<close> loop of \<^verbatim>\<open>addHierarchy\<close>: copy the locators in front of the first one
  that names the DUT. It returns the locators copied, the locator at \<^verbatim>\<open>nlaIdx\<close> and the
  locators behind it; running past the end of the namepath reads out of range.
\<close>

fun addHierarchyLoop ::
  "string \<Rightarrow> NamepathAttr list \<Rightarrow> NamepathAttr list \<Rightarrow>
   (NamepathAttr list \<times> NamepathAttr \<times> NamepathAttr list) option" where
  "addHierarchyLoop dutName newNamepath [] = None"
| "addHierarchyLoop dutName newNamepath (e # es) =
     (if modPart e \<noteq> dutName then addHierarchyLoop dutName (newNamepath @ [e]) es
      else Some (newNamepath, e, es))"

definition addHierarchy :: "HierPathOp \<Rightarrow> FModuleOp \<Rightarrow> InstanceOp \<Rightarrow> Abort + HierPathOp" where
  "addHierarchy path dut wrapperInst =
     (case addHierarchyLoop (mName dut) [] (namepath path) of
        None \<Rightarrow> Inl IndexOutOfRange
      | Some (newNamepath, dutRef, back) \<Rightarrow>
          (case instInnerSym wrapperInst of
             None \<Rightarrow> Inl NullSymbol
           | Some instSym \<Rightarrow>
               Inr (path\<lparr>namepath :=
                 newNamepath
                 @ [InnerRefAttr (mName dut) instSym]
                 @ [case dutRef of
                      InnerRefAttr m s \<Rightarrow> InnerRefAttr (instModuleName wrapperInst) s
                    | FlatSymbolRefAttr m \<Rightarrow> FlatSymbolRefAttr (instModuleName wrapperInst)]
                 @ back\<rparr>)))"

section \<open>Reading the directive\<close>

datatype Diagnostic = MalformedDirective | DuplicateDirective | MissingDUT

record ScanState =
  sWrapperName :: "string option"
  sMoveDut :: bool
  sError :: bool
  sDiags :: "Diagnostic list"

definition scanInit :: ScanState where
  "scanInit = \<lparr>sWrapperName = None, sMoveDut = False, sError = False, sDiags = []\<rparr>"

text \<open>The loop over the circuit's annotations (lines 101 to 127).\<close>

fun scanAnnotations :: "Annotation list \<Rightarrow> ScanState \<Rightarrow> ScanState" where
  "scanAnnotations [] s = s"
| "scanAnnotations (anno # rest) s =
     (if \<not> isClass anno injectDUTHierarchyAnnoClass then scanAnnotations rest s
      else (case getMemberString anno ''name'' of
              None \<Rightarrow>
                scanAnnotations rest
                  (s\<lparr>sError := True, sDiags := sDiags s @ [MalformedDirective]\<rparr>)
            | Some name \<Rightarrow>
                (if sWrapperName s \<noteq> None then
                   scanAnnotations rest
                     (s\<lparr>sError := True, sDiags := sDiags s @ [DuplicateDirective]\<rparr>)
                 else
                   scanAnnotations rest
                     (s\<lparr>sWrapperName := Some name,
                        sMoveDut := (case getMemberBool anno ''moveDut'' of
                                       Some b \<Rightarrow> b
                                     | None \<Rightarrow> sMoveDut s)\<rparr>))))"

section \<open>Finding the DUT\<close>

definition hasAnnotation :: "FModuleOp \<Rightarrow> string \<Rightarrow> bool" where
  "hasAnnotation m c = (\<exists>a \<in> set (mAnnotations m). isClass a c)"

text \<open>
  Modelled from the spec: \<^verbatim>\<open>InstanceInfo::getDut\<close>, the DUT locator, a query returning the
  module marked as DUT, or none. \<open>findDut\<close> also returns the operations in front of and behind
  the DUT, which is where the pass inserts the new module.
\<close>

fun findDut :: "TopOp list \<Rightarrow> TopOp list \<Rightarrow> (TopOp list \<times> FModuleOp \<times> TopOp list) option" where
  "findDut front [] = None"
| "findDut front (HierPath p # rest) = findDut (front @ [HierPath p]) rest"
| "findDut front (Module m # rest) =
     (if hasAnnotation m dutAnnoClass then Some (front, m, rest)
      else findDut (front @ [Module m]) rest)"

definition getDut :: "CircuitOp \<Rightarrow> FModuleOp option" where
  "getDut c = map_option (\<lambda>(front, m, rest). m) (findDut [] (cBody c))"

section \<open>Splitting the DUT\<close>

text \<open>
  Modelled from the spec: the names a \<^verbatim>\<open>CircuitNamespace\<close> is constructed with, the
  symbols in use in the whole design.
\<close>

fun topSymbol :: "TopOp \<Rightarrow> string" where
  "topSymbol (Module m) = mName m"
| "topSymbol (HierPath p) = symName p"

definition circuitNamespace :: "CircuitOp \<Rightarrow> string list" where
  "circuitNamespace c = map topSymbol (cBody c)"

text \<open>
  Modelled from the spec: the names an \<^verbatim>\<open>hw::InnerSymbolNamespace\<close> is constructed with,
  the module's existing symbols, those of its ports and of the instances in its body.
\<close>

fun opInnerSyms :: "Operation \<Rightarrow> string list" where
  "opInnerSyms (Instance i) = (case instInnerSym i of None \<Rightarrow> [] | Some s \<Rightarrow> [s])"
| "opInnerSyms (Region n ops) = concat (map opInnerSyms ops)"
| "opInnerSyms (Connect d s) = []"
| "opInnerSyms (RWProbe m s) = []"
| "opInnerSyms (Other n) = []"

definition innerSymbolNamespace :: "FModuleOp \<Rightarrow> string list" where
  "innerSymbolNamespace m =
     List.map_filter pSym (mPorts m) @ concat (map opInnerSyms (mBody m))"

text \<open>
  Modelled from the spec: \<^verbatim>\<open>emitConnect\<close> of \<^verbatim>\<open>FIRRTLUtils.h\<close>, which connects the
  destination \<open>lhs\<close> to the source \<open>rhs\<close>.
\<close>

definition emitConnect :: "Value \<Rightarrow> Value \<Rightarrow> Operation" where
  "emitConnect lhs rhs = Connect lhs rhs"

text \<open>The body of the loop over the results of the wrapper instance (lines 215 to 221).\<close>

definition connectPort :: "FModuleOp \<Rightarrow> InstanceOp \<Rightarrow> nat \<Rightarrow> Operation" where
  "connectPort dut wrapperInst i =
     (let lhs = Argument i; rhs = InstanceResult (instName wrapperInst) i
      in if pDirection (mPorts dut ! i) = In then emitConnect rhs lhs else emitConnect lhs rhs)"

text \<open>The module created at line 162, with its visibility and annotations settled.\<close>

definition newDUT :: "FModuleOp \<Rightarrow> bool \<Rightarrow> FModuleOp" where
  "newDUT dut moveDut =
     \<lparr>mName = mName dut,
      mVisibility = (if moveDut then Private else mVisibility dut),
      mConvention = mConvention dut,
      mPorts = mPorts dut,
      mAnnotations = (if moveDut then filter (\<lambda>anno. \<not> isClass anno dutAnnoClass) (mAnnotations dut)
                      else mAnnotations dut),
      mBody = []\<rparr>"

text \<open>
  The old DUT, renamed: the wrapper. \<^verbatim>\<open>removePortAnnotations\<close> is called with a predicate
  that is always true; \<^verbatim>\<open>removeAnnotations\<close> removes the annotations its predicate accepts.
\<close>

definition wrapperRemoves :: "bool \<Rightarrow> Annotation \<Rightarrow> bool" where
  "wrapperRemoves moveDut anno = (if isClass anno dutAnnoClass then \<not> moveDut else True)"

definition makeWrapper :: "FModuleOp \<Rightarrow> string \<Rightarrow> bool \<Rightarrow> FModuleOp" where
  "makeWrapper dut name moveDut =
     dut\<lparr>mName := name,
         mVisibility := (if moveDut then mVisibility dut else Private),
         mPorts := map (\<lambda>p. p\<lparr>pAnnotations := []\<rparr>) (mPorts dut),
         mAnnotations := filter (\<lambda>anno. \<not> wrapperRemoves moveDut anno) (mAnnotations dut)\<rparr>"

text \<open>The instance created at line 209.\<close>

definition makeWrapperInst :: "FModuleOp \<Rightarrow> FModuleOp \<Rightarrow> InstanceOp" where
  "makeWrapperInst dut wrapper =
     \<lparr>instModuleName = mName wrapper,
      instName = mName wrapper,
      instInnerSym = Some (fst (newName (innerSymbolNamespace dut) (mName wrapper)))\<rparr>"

text \<open>The new DUT once the wrapper is instantiated in it and wired up (lines 206 to 221).\<close>

definition wireUp :: "FModuleOp \<Rightarrow> FModuleOp \<Rightarrow> InstanceOp \<Rightarrow> FModuleOp" where
  "wireUp dut wrapper wrapperInst =
     dut\<lparr>mBody := Instance wrapperInst
                  # map (connectPort dut wrapperInst) [0..<length (mPorts wrapper)]
                  @ mBody dut\<rparr>"

section \<open>Paths used by the DUT and its port symbols\<close>

definition nonlocalOf :: "Annotation \<Rightarrow> string option" where
  "nonlocalOf anno = getMemberSymbolRef anno ''circt.nonlocal''"

text \<open>The sets computed at lines 224 to 239, as lists.\<close>

definition dutPathsOf :: "FModuleOp \<Rightarrow> string list" where
  "dutPathsOf dut =
     List.map_filter nonlocalOf (mAnnotations dut)
     @ concat (map (\<lambda>p. List.map_filter nonlocalOf (pAnnotations p)) (mPorts dut))"

definition dutPortSymsOf :: "FModuleOp \<Rightarrow> string list" where
  "dutPortSymsOf dut = List.map_filter pSym (mPorts dut)"

section \<open>Updating the hierarchical paths\<close>

record NLAState =
  circuitNS :: "string list"
  dutRenames :: "(string \<times> string) list"

text \<open>
  Lines 300 to 307: the clone is inserted in front of the path, it takes a new symbol from the
  circuit namespace, and \<^verbatim>\<open>dutRenames\<close> maps the path's symbol to it (an insertion that
  keeps an entry already there).
\<close>

definition clonePath :: "HierPathOp \<Rightarrow> NLAState \<Rightarrow> HierPathOp \<times> NLAState" where
  "clonePath nla st =
     (let (cloneName, ns) = newName (circuitNS st) (symName nla);
          clone = nla\<lparr>symName := cloneName\<rparr>
      in (clone,
          \<lparr>circuitNS = ns,
           dutRenames = (if map_of (dutRenames st) (symName nla) = None
                         then dutRenames st @ [(symName nla, symName clone)]
                         else dutRenames st)\<rparr>))"

text \<open>
  The body of the loop over the paths that touch the DUT (lines 263 to 313). It returns the
  operations that stand in the circuit where the path stood: the path as rewritten, with its
  clone in front when one is made.
\<close>

definition processNLA ::
  "FModuleOp \<Rightarrow> FModuleOp \<Rightarrow> InstanceOp \<Rightarrow> string list \<Rightarrow> string list \<Rightarrow>
   HierPathOp \<Rightarrow> NLAState \<Rightarrow> Abort + (HierPathOp list \<times> NLAState)" where
  "processNLA dut wrapper wrapperInst dutPaths dutPortSyms nla st =
     (if root nla = Some (mName dut) then
        (if \<not> length (namepath nla) > 1 then Inl AssertionFailed
         else (case namepath nla of
                 [] \<Rightarrow> Inl IndexOutOfRange
               | InnerRefAttr m s # tail \<Rightarrow>
                   Inr ([nla\<lparr>namepath := InnerRefAttr (mName wrapper) s # tail\<rparr>], st)
               | FlatSymbolRefAttr m # tail \<Rightarrow> Inl CastFailed))
      else if leafMod nla = Some (mName dut) \<and> isComponent nla
              \<and> (case ref nla of None \<Rightarrow> False | Some r \<Rightarrow> r \<in> set dutPortSyms)
      then Inr ([nla], st)
      else
        (let (clones, st') =
               (if leafMod nla = Some (mName dut) \<and> isModule nla \<and> symName nla \<in> set dutPaths
                then (let (clone, st1) = clonePath nla st in ([clone], st1))
                else ([], st))
         in (case addHierarchy nla dut wrapperInst of
               Inl a \<Rightarrow> Inl a
             | Inr nla' \<Rightarrow> Inr (clones @ [nla'], st'))))"

text \<open>
  The loop itself. \<^verbatim>\<open>nlaTable.lookup(dut)\<close> gives the paths that touch the DUT, in the
  order of the circuit; the other operations of the circuit stay as they are.
\<close>

fun processNLAs ::
  "FModuleOp \<Rightarrow> FModuleOp \<Rightarrow> InstanceOp \<Rightarrow> string list \<Rightarrow> string list \<Rightarrow>
   TopOp list \<Rightarrow> NLAState \<Rightarrow> Abort + (TopOp list \<times> NLAState)" where
  "processNLAs dut wrapper wrapperInst dutPaths dutPortSyms [] st = Inr ([], st)"
| "processNLAs dut wrapper wrapperInst dutPaths dutPortSyms (Module m # ops) st =
     (case processNLAs dut wrapper wrapperInst dutPaths dutPortSyms ops st of
        Inl a \<Rightarrow> Inl a
      | Inr (ops', st') \<Rightarrow> Inr (Module m # ops', st'))"
| "processNLAs dut wrapper wrapperInst dutPaths dutPortSyms (HierPath nla # ops) st =
     (if \<not> touches (mName dut) nla then
        (case processNLAs dut wrapper wrapperInst dutPaths dutPortSyms ops st of
           Inl a \<Rightarrow> Inl a
         | Inr (ops', st') \<Rightarrow> Inr (HierPath nla # ops', st'))
      else
        (case processNLA dut wrapper wrapperInst dutPaths dutPortSyms nla st of
           Inl a \<Rightarrow> Inl a
         | Inr (out, st1) \<Rightarrow>
             (case processNLAs dut wrapper wrapperInst dutPaths dutPortSyms ops st1 of
                Inl a \<Rightarrow> Inl a
              | Inr (ops', st') \<Rightarrow> Inr (map HierPath out @ ops', st'))))"

section \<open>Retargeting the annotations of the DUT\<close>

text \<open>
  The predicate \<^verbatim>\<open>removeAndUpdateNLAs\<close> (lines 316 to 327): \<open>None\<close> when it returns false,
  and the annotation it pushes to \<^verbatim>\<open>newAnnotations\<close> when it returns true.
\<close>

definition removeAndUpdateNLAs :: "(string \<times> string) list \<Rightarrow> Annotation \<Rightarrow> Annotation option" where
  "removeAndUpdateNLAs renames anno =
     (case nonlocalOf anno of
        None \<Rightarrow> None
      | Some symbol \<Rightarrow>
          (case map_of renames symbol of
             None \<Rightarrow> None
           | Some cloneName \<Rightarrow> Some (setMember anno ''circt.nonlocal'' (SymbolRefAttr cloneName))))"

text \<open>
  \<^verbatim>\<open>removeAnnotations\<close> with that predicate, then \<^verbatim>\<open>addAnnotations(newAnnotations)\<close>: the
  annotations kept, followed by the updated ones. (Modelled from the spec: the two operations of
  \<^verbatim>\<open>AnnotationSet\<close>, remove the entries a predicate accepts and add entries at the end.)
\<close>

definition retarget :: "(string \<times> string) list \<Rightarrow> Annotation list \<Rightarrow> Annotation list" where
  "retarget renames annos =
     filter (\<lambda>anno. removeAndUpdateNLAs renames anno = None) annos
     @ List.map_filter (removeAndUpdateNLAs renames) annos"

definition retargetDut :: "(string \<times> string) list \<Rightarrow> FModuleOp \<Rightarrow> FModuleOp" where
  "retargetDut renames dut =
     dut\<lparr>mAnnotations := retarget renames (mAnnotations dut),
         mPorts := map (\<lambda>p. p\<lparr>pAnnotations := retarget renames (pAnnotations p)\<rparr>) (mPorts dut)\<rparr>"

section \<open>The rwprobe operations of the wrapper\<close>

fun updateRWProbe :: "string \<Rightarrow> Operation \<Rightarrow> Operation" where
  "updateRWProbe w (RWProbe m s) = RWProbe w s"
| "updateRWProbe w (Region n ops) = Region n (map (updateRWProbe w) ops)"
| "updateRWProbe w (Instance i) = Instance i"
| "updateRWProbe w (Connect d s) = Connect d s"
| "updateRWProbe w (Other n) = Other n"

definition updateRWProbes :: "FModuleOp \<Rightarrow> FModuleOp" where
  "updateRWProbes wrapper = wrapper\<lparr>mBody := map (updateRWProbe (mName wrapper)) (mBody wrapper)\<rparr>"

section \<open>The pass\<close>

record PassResult =
  diagnostics :: "Diagnostic list"
  passFailed :: bool
  allAnalysesPreserved :: bool
  circuit :: CircuitOp

text \<open>
  Lines 158 to 221: the new DUT, the wrapper, the instance of the wrapper in the new DUT, and
  the circuit namespace after the wrapper took its name.
\<close>

definition splitDUT ::
  "FModuleOp \<Rightarrow> string \<Rightarrow> bool \<Rightarrow> string list \<Rightarrow>
   FModuleOp \<times> FModuleOp \<times> InstanceOp \<times> string list" where
  "splitDUT oldDut wrapperName moveDut ns0 =
     (let (name, ns) = newName ns0 wrapperName;
          wrapper = makeWrapper oldDut name moveDut;
          wrapperInst = makeWrapperInst (newDUT oldDut moveDut) wrapper;
          dut = wireUp (newDUT oldDut moveDut) wrapper wrapperInst
      in (dut, wrapper, wrapperInst, ns))"

text \<open>
  Lines 147 to 346, once the directive is read and the DUT is found: \<open>front\<close> and \<open>rest\<close>
  are the operations of the circuit in front of and behind the DUT.
\<close>

definition injectHierarchy ::
  "CircuitOp \<Rightarrow> string \<Rightarrow> bool \<Rightarrow> TopOp list \<Rightarrow> FModuleOp \<Rightarrow> TopOp list \<Rightarrow>
   Abort + CircuitOp" where
  "injectHierarchy c wrapperName moveDut front oldDut rest =
     (case splitDUT oldDut wrapperName moveDut (circuitNamespace c) of
        (dut, wrapper, wrapperInst, ns) \<Rightarrow>
          (case processNLAs dut wrapper wrapperInst (dutPathsOf dut) (dutPortSymsOf dut) front
                  \<lparr>circuitNS = ns, dutRenames = []\<rparr> of
             Inl a \<Rightarrow> Inl a
           | Inr (front', st1) \<Rightarrow>
               (case processNLAs dut wrapper wrapperInst (dutPathsOf dut) (dutPortSymsOf dut)
                       rest st1 of
                  Inl a \<Rightarrow> Inl a
                | Inr (rest', st2) \<Rightarrow>
                    Inr (c\<lparr>cBody :=
                           front'
                           @ [Module (updateRWProbes wrapper),
                              Module (retargetDut (dutRenames st2) dut)]
                           @ rest'\<rparr>))))"

definition runOnOperation :: "CircuitOp \<Rightarrow> Abort + PassResult" where
  "runOnOperation c =
     (let s = scanAnnotations (cAnnotations c) scanInit in
      if sError s then
        Inr \<lparr>diagnostics = sDiags s, passFailed = True, allAnalysesPreserved = False,
             circuit = c\<rparr>
      else (case sWrapperName s of
              None \<Rightarrow>
                Inr \<lparr>diagnostics = sDiags s, passFailed = False, allAnalysesPreserved = True,
                     circuit = c\<rparr>
            | Some wrapperName \<Rightarrow>
                (case findDut [] (cBody c) of
                   None \<Rightarrow>
                     Inr \<lparr>diagnostics = sDiags s @ [MissingDUT], passFailed = True,
                          allAnalysesPreserved = False, circuit = c\<rparr>
                 | Some (front, oldDut, rest) \<Rightarrow>
                     (case injectHierarchy c wrapperName (sMoveDut s) front oldDut rest of
                        Inl a \<Rightarrow> Inl a
                      | Inr c' \<Rightarrow>
                          Inr \<lparr>diagnostics = sDiags s, passFailed = False,
                               allAnalysesPreserved = False, circuit = c'\<rparr>))))"

section \<open>Reaching the split\<close>

text \<open>
  The values with which a run reaches line 147: the wrapper name and the \<open>moveDut\<close> flag
  read from the one directive, and the DUT with the operations in front of and behind it.
  There are none when the run stops before: on an error, without a directive, or without a DUT.
\<close>

definition prerequisites ::
  "CircuitOp \<Rightarrow> (string \<times> bool \<times> TopOp list \<times> FModuleOp \<times> TopOp list) option" where
  "prerequisites c =
     (let s = scanAnnotations (cAnnotations c) scanInit in
      if sError s then None
      else (case sWrapperName s of
              None \<Rightarrow> None
            | Some wrapperName \<Rightarrow>
                (case findDut [] (cBody c) of
                   None \<Rightarrow> None
                 | Some (front, oldDut, rest) \<Rightarrow>
                     Some (wrapperName, sMoveDut s, front, oldDut, rest))))"

text \<open>
  The test of case (1) at line 294: the path ends at the DUT, in a component that is one of the
  port symbols.
\<close>

definition portLeaf :: "string \<Rightarrow> string list \<Rightarrow> HierPathOp \<Rightarrow> bool" where
  "portLeaf dutName dps p =
     (leafMod p = Some dutName \<and> (case ref p of None \<Rightarrow> False | Some r \<Rightarrow> r \<in> set dps))"

text \<open>
  What the root case at lines 270 to 273 asks of a path rooted at the DUT: more than one
  locator, the first of them an inner reference.
\<close>

definition rootCaseOk :: "HierPathOp \<Rightarrow> bool" where
  "rootCaseOk p =
     (1 < length (namepath p)
      \<and> (case namepath p of InnerRefAttr m s # tail \<Rightarrow> True | _ \<Rightarrow> False))"

text \<open>What of a port an instantiating module sees: its name, its direction and its symbol.\<close>

definition portInterface :: "FModuleOp \<Rightarrow> (string \<times> Direction \<times> string option) list" where
  "portInterface m = map (\<lambda>q. (pName q, pDirection q, pSym q)) (mPorts m)"

text \<open>
  What retargeting to a clone means for a list of annotations: each annotation that was scoped
  by the path \<open>symbol\<close> is there scoped by \<open>cloneName\<close> instead, and no annotation is scoped by
  \<open>symbol\<close> any more.
\<close>

definition retargeted :: "string \<Rightarrow> string \<Rightarrow> Annotation list \<Rightarrow> Annotation list \<Rightarrow> bool" where
  "retargeted symbol cloneName before after =
     ((\<forall>anno \<in> set before.
         nonlocalOf anno = Some symbol \<longrightarrow>
         setMember anno ''circt.nonlocal'' (SymbolRefAttr cloneName) \<in> set after)
      \<and> (\<forall>anno \<in> set after. nonlocalOf anno \<noteq> Some symbol))"

section \<open>An example circuit\<close>

text \<open>
  The circuit of the scenarios: a top module that instantiates the DUT \<open>D\<close>, which has an input
  port \<open>a\<close> and an output port \<open>b\<close>. The DUT and its port \<open>b\<close> carry an annotation scoped by
  the path \<open>nla1\<close>; four paths touch the DUT and one does not.
\<close>

definition exMarkDut :: Annotation where
  "exMarkDut = [(''class'', StringAttr dutAnnoClass)]"

definition exScoped :: Annotation where
  "exScoped = [(''class'', StringAttr ''scoped''), (''circt.nonlocal'', SymbolRefAttr ''nla1'')]"

definition exLocal :: Annotation where
  "exLocal = [(''class'', StringAttr ''local'')]"

definition exDirective :: Annotation where
  "exDirective =
     [(''class'', StringAttr injectDUTHierarchyAnnoClass), (''name'', StringAttr ''Wrapper'')]"

definition exDirectiveMove :: Annotation where
  "exDirectiveMove =
     [(''class'', StringAttr injectDUTHierarchyAnnoClass), (''name'', StringAttr ''Wrapper''),
      (''moveDut'', BoolAttr True)]"

definition exMalformed :: Annotation where
  "exMalformed = [(''class'', StringAttr injectDUTHierarchyAnnoClass)]"

definition exPortA :: PortInfo where
  "exPortA = \<lparr>pName = ''a'', pDirection = In, pSym = None, pAnnotations = []\<rparr>"

definition exPortB :: PortInfo where
  "exPortB = \<lparr>pName = ''b'', pDirection = Out, pSym = Some ''b'', pAnnotations = [exScoped]\<rparr>"

definition exD :: FModuleOp where
  "exD =
     \<lparr>mName = ''D'', mVisibility = Public, mConvention = ''internal'',
      mPorts = [exPortA, exPortB], mAnnotations = [exMarkDut, exLocal, exScoped],
      mBody = [Other ''node x'', RWProbe ''D'' ''x'']\<rparr>"

definition exTop :: FModuleOp where
  "exTop =
     \<lparr>mName = ''Top'', mVisibility = Public, mConvention = ''internal'', mPorts = [],
      mAnnotations = [],
      mBody = [Instance \<lparr>instModuleName = ''D'', instName = ''d'', instInnerSym = Some ''d''\<rparr>]\<rparr>"

definition exNla1 :: HierPathOp where
  "exNla1 = \<lparr>symName = ''nla1'', namepath = [InnerRefAttr ''Top'' ''d'', FlatSymbolRefAttr ''D'']\<rparr>"

definition exNla2 :: HierPathOp where
  "exNla2 = \<lparr>symName = ''nla2'', namepath = [InnerRefAttr ''Top'' ''d'', InnerRefAttr ''D'' ''x'']\<rparr>"

definition exNla3 :: HierPathOp where
  "exNla3 = \<lparr>symName = ''nla3'', namepath = [InnerRefAttr ''D'' ''sub'', FlatSymbolRefAttr ''Sub'']\<rparr>"

definition exNla4 :: HierPathOp where
  "exNla4 = \<lparr>symName = ''nla4'', namepath = [InnerRefAttr ''Top'' ''d'', InnerRefAttr ''D'' ''b'']\<rparr>"

definition exNla5 :: HierPathOp where
  "exNla5 = \<lparr>symName = ''nla5'', namepath = [InnerRefAttr ''Top'' ''e'', FlatSymbolRefAttr ''E'']\<rparr>"

definition exBody :: "TopOp list" where
  "exBody =
     [HierPath exNla1, HierPath exNla2, Module exTop, Module exD, HierPath exNla3,
      HierPath exNla4, HierPath exNla5]"

definition exCircuit :: "Annotation list \<Rightarrow> CircuitOp" where
  "exCircuit annos = \<lparr>cAnnotations = annos, cBody = exBody\<rparr>"

text \<open>A DUT whose marker is scoped by the path \<open>nla1\<close>, and which has no other annotation.\<close>

definition exMarkDutScoped :: Annotation where
  "exMarkDutScoped =
     [(''class'', StringAttr dutAnnoClass), (''circt.nonlocal'', SymbolRefAttr ''nla1'')]"

definition exMarked :: FModuleOp where
  "exMarked =
     \<lparr>mName = ''D'', mVisibility = Public, mConvention = ''internal'',
      mPorts = [exPortA], mAnnotations = [exMarkDutScoped], mBody = []\<rparr>"

text \<open>What the split makes of the example's DUT when the flag is not set.\<close>

definition exWrapperInst :: InstanceOp where
  "exWrapperInst =
     \<lparr>instModuleName = ''Wrapper'', instName = ''Wrapper'', instInnerSym = Some ''Wrapper''\<rparr>"

definition exWrapper :: FModuleOp where
  "exWrapper =
     \<lparr>mName = ''Wrapper'', mVisibility = Private, mConvention = ''internal'',
      mPorts = [exPortA, exPortB\<lparr>pAnnotations := []\<rparr>], mAnnotations = [],
      mBody = [Other ''node x'', RWProbe ''D'' ''x'']\<rparr>"

definition exShell :: FModuleOp where
  "exShell =
     \<lparr>mName = ''D'', mVisibility = Public, mConvention = ''internal'',
      mPorts = [exPortA, exPortB], mAnnotations = [exMarkDut, exLocal, exScoped],
      mBody = [Instance exWrapperInst,
               Connect (InstanceResult ''Wrapper'' 0) (Argument 0),
               Connect (Argument 1) (InstanceResult ''Wrapper'' 1)]\<rparr>"

text \<open>The circuit the run makes of the example, with the directive \<open>exDirective\<close>.\<close>

definition exScopedClone :: Annotation where
  "exScopedClone =
     [(''class'', StringAttr ''scoped''), (''circt.nonlocal'', SymbolRefAttr ''nla1_0'')]"

definition exWrapperFinal :: FModuleOp where
  "exWrapperFinal = exWrapper\<lparr>mBody := [Other ''node x'', RWProbe ''Wrapper'' ''x'']\<rparr>"

definition exShellFinal :: FModuleOp where
  "exShellFinal =
     exShell\<lparr>mPorts := [exPortA, exPortB\<lparr>pAnnotations := [exScopedClone]\<rparr>],
             mAnnotations := [exMarkDut, exLocal, exScopedClone]\<rparr>"

definition exResultBody :: "TopOp list" where
  "exResultBody =
     [HierPath \<lparr>symName = ''nla1_0'',
                namepath = [InnerRefAttr ''Top'' ''d'', FlatSymbolRefAttr ''D'']\<rparr>,
      HierPath \<lparr>symName = ''nla1'',
                namepath = [InnerRefAttr ''Top'' ''d'', InnerRefAttr ''D'' ''Wrapper'',
                            FlatSymbolRefAttr ''Wrapper'']\<rparr>,
      HierPath \<lparr>symName = ''nla2'',
                namepath = [InnerRefAttr ''Top'' ''d'', InnerRefAttr ''D'' ''Wrapper'',
                            InnerRefAttr ''Wrapper'' ''x'']\<rparr>,
      Module exTop, Module exWrapperFinal, Module exShellFinal,
      HierPath \<lparr>symName = ''nla3'',
                namepath = [InnerRefAttr ''Wrapper'' ''sub'', FlatSymbolRefAttr ''Sub'']\<rparr>,
      HierPath exNla4, HierPath exNla5]"

section \<open>Reading the directive: properties\<close>

definition isDirective :: "Annotation \<Rightarrow> bool" where
  "isDirective anno = isClass anno injectDUTHierarchyAnnoClass"

text \<open>The directives that carry a name, and those that do not, in the order of the circuit.\<close>

definition namedDirectives :: "Annotation list \<Rightarrow> Annotation list" where
  "namedDirectives annos =
     filter (\<lambda>anno. isDirective anno \<and> getMemberString anno ''name'' \<noteq> None) annos"

definition malformedDirectives :: "Annotation list \<Rightarrow> Annotation list" where
  "malformedDirectives annos =
     filter (\<lambda>anno. isDirective anno \<and> getMemberString anno ''name'' = None) annos"

lemma scan_no_directive:
  "\<forall>anno \<in> set annos. \<not> isDirective anno \<Longrightarrow> scanAnnotations annos s = s"
  by (induction annos arbitrary: s) (simp_all add: isDirective_def)

text \<open>
  C6. A circuit without any directive is returned as it is: no diagnostic, no failure, and all
  analyses marked as preserved.
\<close>

theorem no_directive_is_noop:
  assumes "\<forall>anno \<in> set (cAnnotations c). \<not> isDirective anno"
  shows "runOnOperation c =
           Inr \<lparr>diagnostics = [], passFailed = False, allAnalysesPreserved = True,
                circuit = c\<rparr>"
  using assms by (simp add: runOnOperation_def scan_no_directive scanInit_def)

text \<open>The example circuit without a directive comes back as it is.\<close>

theorem no_directive_is_noop_witness:
  "runOnOperation (exCircuit [exLocal, exScoped]) =
     Inr \<lparr>diagnostics = [], passFailed = False, allAnalysesPreserved = True,
          circuit = exCircuit [exLocal, exScoped]\<rparr>"
proof -
  have "\<forall>anno \<in> set (cAnnotations (exCircuit [exLocal, exScoped])). \<not> isDirective anno"
    by code_simp
  then show ?thesis
    by (rule no_directive_is_noop)
qed

subsection \<open>What the loop over the annotations computes\<close>

lemma scan_wrapperName:
  "sWrapperName (scanAnnotations annos s) =
     (case sWrapperName s of
        Some n \<Rightarrow> Some n
      | None \<Rightarrow> (case namedDirectives annos of [] \<Rightarrow> None | a # _ \<Rightarrow> getMemberString a ''name''))"
  by (induction annos arbitrary: s)
     (auto simp: namedDirectives_def isDirective_def split: option.splits list.splits)

lemma scan_moveDut:
  "sMoveDut (scanAnnotations annos s) =
     (case sWrapperName s of
        Some n \<Rightarrow> sMoveDut s
      | None \<Rightarrow> (case namedDirectives annos of
                   [] \<Rightarrow> sMoveDut s
                 | a # _ \<Rightarrow> (case getMemberBool a ''moveDut'' of Some b \<Rightarrow> b | None \<Rightarrow> sMoveDut s)))"
  by (induction annos arbitrary: s)
     (auto simp: namedDirectives_def isDirective_def split: option.splits list.splits)

lemma scan_count_malformed:
  "count_list (sDiags (scanAnnotations annos s)) MalformedDirective =
     count_list (sDiags s) MalformedDirective + length (malformedDirectives annos)"
  by (induction annos arbitrary: s)
     (auto simp: malformedDirectives_def isDirective_def split: option.splits)

lemma scan_count_duplicate:
  "count_list (sDiags (scanAnnotations annos s)) DuplicateDirective =
     count_list (sDiags s) DuplicateDirective
     + (if sWrapperName s = None then length (namedDirectives annos) - 1
        else length (namedDirectives annos))"
  by (induction annos arbitrary: s)
     (auto simp: namedDirectives_def isDirective_def split: option.splits)

lemma scan_count_missing:
  "count_list (sDiags (scanAnnotations annos s)) MissingDUT = count_list (sDiags s) MissingDUT"
  by (induction annos arbitrary: s) (auto split: option.splits)

lemma scan_error:
  "sError (scanAnnotations annos s) =
     (sError s \<or> malformedDirectives annos \<noteq> []
      \<or> (if sWrapperName s = None then 2 \<le> length (namedDirectives annos)
          else namedDirectives annos \<noteq> []))"
  by (induction annos arbitrary: s)
     (auto simp: namedDirectives_def malformedDirectives_def isDirective_def Suc_le_eq
           split: option.splits)


lemma scan_no_error_no_diags:
  "\<not> sError (scanAnnotations annos s) \<Longrightarrow> sDiags (scanAnnotations annos s) = sDiags s"
proof (induction annos arbitrary: s)
  case Nil
  then show ?case by simp
next
  case (Cons anno annos)
  from Cons.prems show ?case
    by (auto simp: Cons.IH scan_error split: option.splits if_splits)
qed

lemma count_list_pos_iff: "x \<in> set xs \<longleftrightarrow> 0 < count_list xs x"
  by (induction xs) auto

text \<open>
  C10. A duplicate is reported exactly when two directives carry a name, so a directive without
  a name followed by a well-formed one gives the malformed-directive error alone, and the run
  fails with the circuit as it was. The \<open>moveDut\<close> flag is that of the first directive with a
  name.
\<close>

theorem duplicate_needs_accepted_directive:
  "(\<forall>r. runOnOperation c = Inr r \<longrightarrow>
       (DuplicateDirective \<in> set (diagnostics r)
          \<longleftrightarrow> 2 \<le> length (namedDirectives (cAnnotations c))))
   \<and> (cAnnotations c = [d1, d2] \<and> isDirective d1 \<and> getMemberString d1 ''name'' = None
        \<and> isDirective d2 \<and> getMemberString d2 ''name'' \<noteq> None \<longrightarrow>
        runOnOperation c =
          Inr \<lparr>diagnostics = [MalformedDirective], passFailed = True,
               allAnalysesPreserved = False, circuit = c\<rparr>)
   \<and> sMoveDut (scanAnnotations (cAnnotations c) scanInit) =
       (case namedDirectives (cAnnotations c) of
          [] \<Rightarrow> False
        | first # others \<Rightarrow>
            (case getMemberBool first ''moveDut'' of Some b \<Rightarrow> b | None \<Rightarrow> False))"
proof (intro conjI allI impI)
  fix r
  assume run: "runOnOperation c = Inr r"
  let ?s = "scanAnnotations (cAnnotations c) scanInit"
  have dup: "DuplicateDirective \<in> set (sDiags ?s) \<longleftrightarrow> 2 \<le> length (namedDirectives (cAnnotations c))"
    by (auto simp add: count_list_pos_iff scan_count_duplicate scanInit_def)
  have "set (diagnostics r) - {MissingDUT} = set (sDiags ?s) - {MissingDUT}"
    using run
    by (auto simp: runOnOperation_def Let_def split: if_splits option.splits sum.splits prod.splits)
  with dup show "DuplicateDirective \<in> set (diagnostics r)
          \<longleftrightarrow> 2 \<le> length (namedDirectives (cAnnotations c))"
    by blast
next
  assume "cAnnotations c = [d1, d2] \<and> isDirective d1 \<and> getMemberString d1 ''name'' = None
        \<and> isDirective d2 \<and> getMemberString d2 ''name'' \<noteq> None"
  then show "runOnOperation c =
          Inr \<lparr>diagnostics = [MalformedDirective], passFailed = True,
               allAnalysesPreserved = False, circuit = c\<rparr>"
    by (auto simp: runOnOperation_def scanInit_def isDirective_def)
next
  show "sMoveDut (scanAnnotations (cAnnotations c) scanInit) =
       (case namedDirectives (cAnnotations c) of
          [] \<Rightarrow> False
        | first # others \<Rightarrow>
            (case getMemberBool first ''moveDut'' of Some b \<Rightarrow> b | None \<Rightarrow> False))"
    by (simp add: scan_moveDut scanInit_def split: list.splits option.splits)
qed

text \<open>
  The example circuit with a directive without a name in front of one with a name and the flag
  set: only the malformed directive is reported, and no duplicate.
\<close>

theorem duplicate_needs_accepted_directive_witness:
  "runOnOperation (exCircuit [exMalformed, exDirectiveMove]) =
     Inr \<lparr>diagnostics = [MalformedDirective], passFailed = True, allAnalysesPreserved = False,
          circuit = exCircuit [exMalformed, exDirectiveMove]\<rparr>
   \<and> DuplicateDirective \<notin> set [MalformedDirective]"
proof -
  have h: "cAnnotations (exCircuit [exMalformed, exDirectiveMove]) = [exMalformed, exDirectiveMove]
           \<and> isDirective exMalformed \<and> getMemberString exMalformed ''name'' = None
           \<and> isDirective exDirectiveMove \<and> getMemberString exDirectiveMove ''name'' \<noteq> None"
    by code_simp
  from duplicate_needs_accepted_directive
         [of "exCircuit [exMalformed, exDirectiveMove]" exMalformed exDirectiveMove] h
  show ?thesis by simp
qed

text \<open>
  C7, as amended. Every directive without a name is reported as malformed; two directives with
  a name give the duplicate error; one well-formed directive and no DUT give the missing-DUT
  error. In each case the run fails and the circuit is the one it was given.
\<close>

theorem directive_errors_abort_unchanged:
  "(malformedDirectives (cAnnotations c) \<noteq> [] \<longrightarrow>
      (\<exists>ds. runOnOperation c =
               Inr \<lparr>diagnostics = ds, passFailed = True, allAnalysesPreserved = False,
                    circuit = c\<rparr>
            \<and> count_list ds MalformedDirective = length (malformedDirectives (cAnnotations c))))
   \<and> (2 \<le> length (namedDirectives (cAnnotations c)) \<longrightarrow>
      (\<exists>ds. runOnOperation c =
               Inr \<lparr>diagnostics = ds, passFailed = True, allAnalysesPreserved = False,
                    circuit = c\<rparr>
            \<and> DuplicateDirective \<in> set ds))
   \<and> (malformedDirectives (cAnnotations c) = [] \<and> length (namedDirectives (cAnnotations c)) = 1
        \<and> getDut c = None \<longrightarrow>
      runOnOperation c =
        Inr \<lparr>diagnostics = [MissingDUT], passFailed = True, allAnalysesPreserved = False,
             circuit = c\<rparr>)"
proof (intro conjI impI)
  let ?s = "scanAnnotations (cAnnotations c) scanInit"
  assume "malformedDirectives (cAnnotations c) \<noteq> []"
  then have "sError ?s" by (simp add: scan_error)
  then have "runOnOperation c =
               Inr \<lparr>diagnostics = sDiags ?s, passFailed = True, allAnalysesPreserved = False,
                    circuit = c\<rparr>"
    by (simp add: runOnOperation_def)
  moreover have "count_list (sDiags ?s) MalformedDirective
                   = length (malformedDirectives (cAnnotations c))"
    by (simp add: scan_count_malformed scanInit_def)
  ultimately show "\<exists>ds. runOnOperation c =
               Inr \<lparr>diagnostics = ds, passFailed = True, allAnalysesPreserved = False,
                    circuit = c\<rparr>
            \<and> count_list ds MalformedDirective = length (malformedDirectives (cAnnotations c))"
    by blast
next
  let ?s = "scanAnnotations (cAnnotations c) scanInit"
  assume two: "2 \<le> length (namedDirectives (cAnnotations c))"
  then have "sError ?s" by (simp add: scan_error scanInit_def)
  then have "runOnOperation c =
               Inr \<lparr>diagnostics = sDiags ?s, passFailed = True, allAnalysesPreserved = False,
                    circuit = c\<rparr>"
    by (simp add: runOnOperation_def)
  moreover from two have "DuplicateDirective \<in> set (sDiags ?s)"
    by (simp add: count_list_pos_iff scan_count_duplicate scanInit_def)
  ultimately show "\<exists>ds. runOnOperation c =
               Inr \<lparr>diagnostics = ds, passFailed = True, allAnalysesPreserved = False,
                    circuit = c\<rparr>
            \<and> DuplicateDirective \<in> set ds"
    by blast
next
  let ?s = "scanAnnotations (cAnnotations c) scanInit"
  assume h: "malformedDirectives (cAnnotations c) = [] \<and> length (namedDirectives (cAnnotations c)) = 1
        \<and> getDut c = None"
  then have ok: "\<not> sError ?s" by (simp add: scan_error scanInit_def)
  then have nodiag: "sDiags ?s = []"
    using scan_no_error_no_diags [of "cAnnotations c" scanInit] by (simp add: scanInit_def)
  from h obtain a where "namedDirectives (cAnnotations c) = [a]"
    by (cases "namedDirectives (cAnnotations c)") auto
  moreover then have "a \<in> set (namedDirectives (cAnnotations c))" by simp
  then have "getMemberString a ''name'' \<noteq> None" by (simp add: namedDirectives_def)
  ultimately obtain n where "sWrapperName ?s = Some n"
    by (auto simp: scan_wrapperName scanInit_def)
  moreover from h have "findDut [] (cBody c) = None" by (simp add: getDut_def)
  ultimately show "runOnOperation c =
        Inr \<lparr>diagnostics = [MissingDUT], passFailed = True, allAnalysesPreserved = False,
             circuit = c\<rparr>"
    using ok nodiag by (simp add: runOnOperation_def)
qed

text \<open>The three cases on the example circuit.\<close>

theorem directive_errors_abort_unchanged_witness:
  "(\<exists>ds. runOnOperation (exCircuit [exMalformed]) =
            Inr \<lparr>diagnostics = ds, passFailed = True, allAnalysesPreserved = False,
                 circuit = exCircuit [exMalformed]\<rparr>
          \<and> count_list ds MalformedDirective = 1)
   \<and> (\<exists>ds. runOnOperation (exCircuit [exDirective, exDirectiveMove]) =
            Inr \<lparr>diagnostics = ds, passFailed = True, allAnalysesPreserved = False,
                 circuit = exCircuit [exDirective, exDirectiveMove]\<rparr>
          \<and> DuplicateDirective \<in> set ds)
   \<and> runOnOperation \<lparr>cAnnotations = [exDirective], cBody = [Module exTop]\<rparr> =
        Inr \<lparr>diagnostics = [MissingDUT], passFailed = True, allAnalysesPreserved = False,
             circuit = \<lparr>cAnnotations = [exDirective], cBody = [Module exTop]\<rparr>\<rparr>"
proof -
  have a: "malformedDirectives (cAnnotations (exCircuit [exMalformed])) \<noteq> []"
    and a': "length (malformedDirectives (cAnnotations (exCircuit [exMalformed]))) = 1"
    by code_simp+
  have b: "2 \<le> length (namedDirectives (cAnnotations (exCircuit [exDirective, exDirectiveMove])))"
    by code_simp
  have c: "malformedDirectives (cAnnotations \<lparr>cAnnotations = [exDirective], cBody = [Module exTop]\<rparr>) = []
           \<and> length (namedDirectives
                (cAnnotations \<lparr>cAnnotations = [exDirective], cBody = [Module exTop]\<rparr>)) = 1
           \<and> getDut \<lparr>cAnnotations = [exDirective], cBody = [Module exTop]\<rparr> = None"
    by code_simp
  from directive_errors_abort_unchanged [of "exCircuit [exMalformed]"] a a'
       directive_errors_abort_unchanged [of "exCircuit [exDirective, exDirectiveMove]"] b
       directive_errors_abort_unchanged [of "\<lparr>cAnnotations = [exDirective], cBody = [Module exTop]\<rparr>"] c
  show ?thesis by simp
qed

text \<open>
  Two directives and no DUT, the first directive without a name: the run reports the malformed
  directive only, neither a duplicate nor a missing DUT.
\<close>

theorem malformed_then_valid_reports_no_duplicate:
  "length (filter isDirective [exMalformed, exDirective]) = 2
   \<and> getDut \<lparr>cAnnotations = [exMalformed, exDirective], cBody = [Module exTop]\<rparr> = None
   \<and> runOnOperation \<lparr>cAnnotations = [exMalformed, exDirective], cBody = [Module exTop]\<rparr> =
       Inr \<lparr>diagnostics = [MalformedDirective], passFailed = True, allAnalysesPreserved = False,
            circuit = \<lparr>cAnnotations = [exMalformed, exDirective], cBody = [Module exTop]\<rparr>\<rparr>"
  by code_simp

section \<open>The run as a whole\<close>

lemma findDut_split:
  "findDut acc ops = Some (front, m, rest) \<Longrightarrow>
     acc @ ops = front @ Module m # rest \<and> hasAnnotation m dutAnnoClass"
  by (induction acc ops rule: findDut.induct) (auto split: if_splits)

lemma prerequisites_body:
  "prerequisites c = Some (wn, mv, front, oldDut, rest) \<Longrightarrow>
     cBody c = front @ Module oldDut # rest"
  by (auto simp: prerequisites_def Let_def dest: findDut_split split: if_splits option.splits)

lemma processNLAs_append:
  "processNLAs dut w wi dp dps (xs @ ys) st =
     (case processNLAs dut w wi dp dps xs st of
        Inl a \<Rightarrow> Inl a
      | Inr (xs', st1) \<Rightarrow>
          (case processNLAs dut w wi dp dps ys st1 of
             Inl a \<Rightarrow> Inl a
           | Inr (ys', st2) \<Rightarrow> Inr (xs' @ ys', st2)))"
proof (induction xs arbitrary: st)
  case Nil
  show ?case by (simp split: sum.splits)
next
  case (Cons x xs)
  show ?case
    by (cases x) (auto simp: Cons.IH split: sum.splits prod.splits)
qed


subsection \<open>Names\<close>

lemma newNameLoop_fresh: "newNameLoop used base i \<notin> set used"
  by (induction used base i rule: newNameLoop.induct) (subst newNameLoop.simps, simp)

lemma newName_fresh: "fst (newName used hint) \<notin> set used"
  by (simp add: newName_def Let_def newNameLoop_fresh)

lemma newName_reserves: "snd (newName used hint) = fst (newName used hint) # used"
  by (simp add: newName_def Let_def)

subsection \<open>The loop of addHierarchy\<close>

lemma addHierarchyLoop_Some:
  "addHierarchyLoop m acc xs = Some (front, d, back) \<Longrightarrow>
     \<exists>front'. front = acc @ front' \<and> xs = front' @ d # back \<and> modPart d = m
              \<and> m \<notin> modPart ` set front'"
proof (induction xs arbitrary: acc)
  case Nil
  then show ?case by simp
next
  case (Cons e es)
  show ?case
  proof (cases "modPart e = m")
    case True
    with Cons.prems show ?thesis by auto
  next
    case False
    with Cons.prems have "addHierarchyLoop m (acc @ [e]) es = Some (front, d, back)" by simp
    from Cons.IH [OF this] obtain front' where
      "front = (acc @ [e]) @ front'" "es = front' @ d # back" "modPart d = m"
      "m \<notin> modPart ` set front'" by blast
    with False show ?thesis
      by (intro exI [of _ "e # front'"]) auto
  qed
qed

lemma addHierarchyLoop_None:
  "addHierarchyLoop m acc xs = None \<longleftrightarrow> m \<notin> modPart ` set xs"
  by (induction xs arbitrary: acc) auto

lemma addHierarchy_touching:
  assumes "touches (mName dut) p" and "instInnerSym wi = Some instSym"
  shows "\<exists>front d back.
           namepath p = front @ d # back \<and> modPart d = mName dut
           \<and> mName dut \<notin> modPart ` set front
           \<and> addHierarchy p dut wi =
               Inr (p\<lparr>namepath :=
                      front
                      @ [InnerRefAttr (mName dut) instSym,
                         (case d of
                            InnerRefAttr m s \<Rightarrow> InnerRefAttr (instModuleName wi) s
                          | FlatSymbolRefAttr m \<Rightarrow> FlatSymbolRefAttr (instModuleName wi))]
                      @ back\<rparr>)"
proof -
  from assms(1) have "addHierarchyLoop (mName dut) [] (namepath p) \<noteq> None"
    by (simp add: addHierarchyLoop_None touches_def)
  then obtain front d behind where
    loop: "addHierarchyLoop (mName dut) [] (namepath p) = Some (front, d, behind)"
    by (cases "addHierarchyLoop (mName dut) [] (namepath p)") auto
  from addHierarchyLoop_Some [OF loop]
  have "namepath p = front @ d # behind" "modPart d = mName dut"
    "mName dut \<notin> modPart ` set front"
    by auto
  moreover from loop assms(2)
  have "addHierarchy p dut wi =
               Inr (p\<lparr>namepath :=
                      front
                      @ [InnerRefAttr (mName dut) instSym,
                         (case d of
                            InnerRefAttr m s \<Rightarrow> InnerRefAttr (instModuleName wi) s
                          | FlatSymbolRefAttr m \<Rightarrow> FlatSymbolRefAttr (instModuleName wi))]
                      @ behind\<rparr>)"
    by (simp add: addHierarchy_def)
  ultimately show ?thesis by blast
qed

subsection \<open>The split\<close>

lemma splitDUT_eq:
  "splitDUT oldDut wn mv ns0 = (dut, wrapper, wi, ns) \<longleftrightarrow>
     wrapper = makeWrapper oldDut (fst (newName ns0 wn)) mv
     \<and> wi = makeWrapperInst (newDUT oldDut mv) wrapper
     \<and> dut = wireUp (newDUT oldDut mv) wrapper wi
     \<and> ns = fst (newName ns0 wn) # ns0"
  using newName_reserves [of ns0 wn]
  by (cases "newName ns0 wn") (auto simp: splitDUT_def Let_def)

lemma splitDUT_facts:
  assumes "splitDUT oldDut wn mv ns0 = (dut, wrapper, wi, ns)"
  shows "mName dut = mName oldDut"
    and "mName wrapper = fst (newName ns0 wn)"
    and "ns = mName wrapper # ns0"
    and "instModuleName wi = mName wrapper"
    and "instName wi = mName wrapper"
    and "\<exists>instSym. instInnerSym wi = Some instSym"
    and "mPorts dut = mPorts oldDut"
    and "mAnnotations dut = mAnnotations (newDUT oldDut mv)"
  using assms
  by (simp_all add: splitDUT_eq makeWrapper_def makeWrapperInst_def wireUp_def newDUT_def)

subsection \<open>One path\<close>

lemma processNLA_root:
  assumes "root p = Some (mName dut)"
  shows "processNLA dut w wi dp dps p st =
           (if 1 < length (namepath p) then
              (case hd (namepath p) of
                 InnerRefAttr m s \<Rightarrow> Inr ([p\<lparr>namepath := InnerRefAttr (mName w) s # tl (namepath p)\<rparr>], st)
               | FlatSymbolRefAttr m \<Rightarrow> Inl CastFailed)
            else Inl AssertionFailed)"
  using assms
  by (auto simp: processNLA_def root_def split: list.splits NamepathAttr.splits)

lemma processNLA_port:
  assumes "root p \<noteq> Some (mName dut)" and "leafMod p = Some (mName dut)"
    and "ref p = Some s" and "s \<in> set dps"
  shows "processNLA dut w wi dp dps p st = Inr ([p], st)"
  using assms by (simp add: processNLA_def isComponent_def)

lemma processNLA_extend:
  assumes "root p \<noteq> Some (mName dut)" and "\<not> portLeaf (mName dut) dps p"
  shows "processNLA dut w wi dp dps p st =
           (case addHierarchy p dut wi of
              Inl a \<Rightarrow> Inl a
            | Inr p' \<Rightarrow>
                (if leafMod p = Some (mName dut) \<and> isModule p \<and> symName p \<in> set dp
                 then Inr ([fst (clonePath p st), p'], snd (clonePath p st))
                 else Inr ([p'], st)))"
  using assms
  by (auto simp: processNLA_def portLeaf_def isComponent_def Let_def
           split: sum.splits prod.splits option.splits)

lemma clonePath_facts:
  "fst (clonePath p st) = p\<lparr>symName := fst (newName (circuitNS st) (symName p))\<rparr>"
  "circuitNS (snd (clonePath p st)) = fst (newName (circuitNS st) (symName p)) # circuitNS st"
  "dutRenames (snd (clonePath p st)) =
     (if map_of (dutRenames st) (symName p) = None
      then dutRenames st @ [(symName p, fst (newName (circuitNS st) (symName p)))]
      else dutRenames st)"
  using newName_reserves [of "circuitNS st" "symName p"]
  by (auto simp: clonePath_def Let_def split: prod.splits)

text \<open>How one step changes the namespace and the renames.\<close>

lemma processNLA_state:
  assumes "processNLA dut w wi dp dps p st = Inr (out, st')"
  shows "set (circuitNS st) \<subseteq> set (circuitNS st')"
    and "map_of (dutRenames st) k = Some v \<Longrightarrow> map_of (dutRenames st') k = Some v"
    and "fst ` set (dutRenames st') \<subseteq> insert (symName p) (fst ` set (dutRenames st))"
    and "snd ` set (dutRenames st') \<inter> set (circuitNS st) \<subseteq> snd ` set (dutRenames st)"
proof -
  have cases: "st' = st \<or> st' = snd (clonePath p st)"
    using assms
    by (auto simp: processNLA_def Let_def
             split: if_splits list.splits NamepathAttr.splits sum.splits prod.splits)
  show "set (circuitNS st) \<subseteq> set (circuitNS st')"
    using cases by (auto simp: clonePath_facts)
  show "map_of (dutRenames st) k = Some v \<Longrightarrow> map_of (dutRenames st') k = Some v"
    using cases by (auto simp: clonePath_facts map_add_Some_iff)
  show "fst ` set (dutRenames st') \<subseteq> insert (symName p) (fst ` set (dutRenames st))"
    using cases by (auto simp: clonePath_facts split: if_splits)
  show "snd ` set (dutRenames st') \<inter> set (circuitNS st) \<subseteq> snd ` set (dutRenames st)"
    using cases newName_fresh [of "circuitNS st" "symName p"]
    by (auto simp: clonePath_facts split: if_splits)
qed

subsection \<open>All paths\<close>

lemma processNLAs_at:
  assumes "processNLAs dut w wi dp dps (xs @ HierPath p # ys) st = Inr (ops', st')"
    and "touches (mName dut) p"
  shows "\<exists>xs' st1 out st2 ys'.
           processNLAs dut w wi dp dps xs st = Inr (xs', st1)
           \<and> processNLA dut w wi dp dps p st1 = Inr (out, st2)
           \<and> processNLAs dut w wi dp dps ys st2 = Inr (ys', st')
           \<and> ops' = xs' @ map HierPath out @ ys'"
  using assms
  by (auto simp: processNLAs_append split: sum.splits prod.splits)

lemma processNLAs_untouched:
  assumes "processNLAs dut w wi dp dps ops st = Inr (ops', st')"
    and "x \<in> set ops" and "\<forall>p. x = HierPath p \<longrightarrow> \<not> touches (mName dut) p"
  shows "x \<in> set ops'"
  using assms
proof (induction ops arbitrary: st ops')
  case Nil
  then show ?case by simp
next
  case (Cons y ops)
  show ?case
  proof (cases y)
    case (Module m)
    with Cons.prems Cons.IH show ?thesis
      by (auto split: sum.splits prod.splits)
  next
    case (HierPath q)
    with Cons.prems Cons.IH show ?thesis
      by (auto split: sum.splits prod.splits if_splits)
  qed
qed

lemma processNLAs_Cons:
  assumes "processNLAs dut w wi dp dps (y # ops) st = Inr (ops', st')"
  shows "(\<not> (\<exists>q. y = HierPath q \<and> touches (mName dut) q)
            \<and> (\<exists>ops1. processNLAs dut w wi dp dps ops st = Inr (ops1, st') \<and> ops' = y # ops1))
       \<or> (\<exists>q out st1 ops1.
             y = HierPath q \<and> touches (mName dut) q
             \<and> processNLA dut w wi dp dps q st = Inr (out, st1)
             \<and> processNLAs dut w wi dp dps ops st1 = Inr (ops1, st')
             \<and> ops' = map HierPath out @ ops1)"
proof (cases y)
  case (Module m)
  with assms show ?thesis
    by (simp split: sum.splits prod.splits)
next
  case (HierPath q)
  show ?thesis
  proof (cases "touches (mName dut) q")
    case True
    with assms HierPath show ?thesis
      by (simp split: sum.splits prod.splits)
  next
    case False
    with assms HierPath show ?thesis
      by (simp split: sum.splits prod.splits)
  qed
qed

lemma processNLAs_ns_mono:
  "processNLAs dut w wi dp dps ops st = Inr (ops', st') \<Longrightarrow>
     set (circuitNS st) \<subseteq> set (circuitNS st')"
proof (induction ops arbitrary: st ops')
  case Nil
  then show ?case by simp
next
  case (Cons y ops)
  from processNLAs_Cons [OF Cons.prems] show ?case
  proof (elim disjE conjE exE)
    fix ops1
    assume "processNLAs dut w wi dp dps ops st = Inr (ops1, st')"
    then show ?thesis by (rule Cons.IH)
  next
    fix q out st1 ops1
    assume step: "processNLA dut w wi dp dps q st = Inr (out, st1)"
      and rec: "processNLAs dut w wi dp dps ops st1 = Inr (ops1, st')"
    from processNLA_state(1) [OF step] Cons.IH [OF rec] show ?thesis
      by (rule subset_trans)
  qed
qed

lemma processNLAs_renames_kept:
  "processNLAs dut w wi dp dps ops st = Inr (ops', st') \<Longrightarrow>
     map_of (dutRenames st) k = Some v \<Longrightarrow> map_of (dutRenames st') k = Some v"
proof (induction ops arbitrary: st ops')
  case Nil
  then show ?case by simp
next
  case (Cons y ops)
  from processNLAs_Cons [OF Cons.prems(1)] show ?case
  proof (elim disjE conjE exE)
    fix ops1
    assume "processNLAs dut w wi dp dps ops st = Inr (ops1, st')"
    then show ?thesis using Cons.prems(2) by (rule Cons.IH)
  next
    fix q out st1 ops1
    assume step: "processNLA dut w wi dp dps q st = Inr (out, st1)"
      and rec: "processNLAs dut w wi dp dps ops st1 = Inr (ops1, st')"
    from processNLA_state(2) [OF step Cons.prems(2)]
    have "map_of (dutRenames st1) k = Some v" .
    with rec show ?thesis by (rule Cons.IH)
  qed
qed

lemma processNLAs_rename_keys:
  "processNLAs dut w wi dp dps ops st = Inr (ops', st') \<Longrightarrow>
     k \<in> fst ` set (dutRenames st') \<Longrightarrow>
     k \<in> fst ` set (dutRenames st) \<or> (\<exists>q. HierPath q \<in> set ops \<and> symName q = k)"
proof (induction ops arbitrary: st ops')
  case Nil
  then show ?case by simp
next
  case (Cons y ops)
  from processNLAs_Cons [OF Cons.prems(1)] show ?case
  proof (elim disjE conjE exE)
    fix ops1
    assume "processNLAs dut w wi dp dps ops st = Inr (ops1, st')"
    from Cons.IH [OF this Cons.prems(2)] show ?thesis by auto
  next
    fix q out st1 ops1
    assume y: "y = HierPath q"
      and step: "processNLA dut w wi dp dps q st = Inr (out, st1)"
      and rec: "processNLAs dut w wi dp dps ops st1 = Inr (ops1, st')"
    from Cons.IH [OF rec Cons.prems(2)]
    have "k \<in> fst ` set (dutRenames st1) \<or> (\<exists>q. HierPath q \<in> set ops \<and> symName q = k)" .
    then show ?thesis
    proof
      assume "k \<in> fst ` set (dutRenames st1)"
      with processNLA_state(3) [OF step]
      have "k = symName q \<or> k \<in> fst ` set (dutRenames st)" by blast
      with y show ?thesis by auto
    next
      assume "\<exists>q. HierPath q \<in> set ops \<and> symName q = k"
      then show ?thesis by auto
    qed
  qed
qed

lemma processNLAs_rename_values:
  "processNLAs dut w wi dp dps ops st = Inr (ops', st') \<Longrightarrow>
     v \<in> snd ` set (dutRenames st') \<Longrightarrow> v \<in> set (circuitNS st) \<Longrightarrow>
     v \<in> snd ` set (dutRenames st)"
proof (induction ops arbitrary: st ops')
  case Nil
  then show ?case by simp
next
  case (Cons y ops)
  from processNLAs_Cons [OF Cons.prems(1)] show ?case
  proof (elim disjE conjE exE)
    fix ops1
    assume "processNLAs dut w wi dp dps ops st = Inr (ops1, st')"
    from Cons.IH [OF this Cons.prems(2,3)] show ?thesis .
  next
    fix q out st1 ops1
    assume step: "processNLA dut w wi dp dps q st = Inr (out, st1)"
      and rec: "processNLAs dut w wi dp dps ops st1 = Inr (ops1, st')"
    from processNLA_state(1) [OF step] Cons.prems(3) have "v \<in> set (circuitNS st1)" by blast
    from Cons.IH [OF rec Cons.prems(2) this] have "v \<in> snd ` set (dutRenames st1)" .
    with processNLA_state(4) [OF step] Cons.prems(3) show ?thesis by blast
  qed
qed

lemma run_result_parts:
  assumes pre: "prerequisites c = Some (wn, mv, front, oldDut, rest)"
    and split: "splitDUT oldDut wn mv (circuitNamespace c) = (dut, wrapper, wi, ns)"
    and run: "runOnOperation c = Inr r"
  shows "\<exists>front' st1 rest' st'.
           processNLAs dut wrapper wi (dutPathsOf dut) (dutPortSymsOf dut) front
             \<lparr>circuitNS = ns, dutRenames = []\<rparr> = Inr (front', st1)
           \<and> processNLAs dut wrapper wi (dutPathsOf dut) (dutPortSymsOf dut) rest st1
               = Inr (rest', st')
           \<and> r = \<lparr>diagnostics = [], passFailed = False, allAnalysesPreserved = False,
                   circuit = c\<lparr>cBody :=
                     front'
                     @ [Module (updateRWProbes wrapper), Module (retargetDut (dutRenames st') dut)]
                     @ rest'\<rparr>\<rparr>"
proof -
  let ?s = "scanAnnotations (cAnnotations c) scanInit"
  from pre have ok: "\<not> sError ?s" and wn: "sWrapperName ?s = Some wn" and mv: "sMoveDut ?s = mv"
    and fd: "findDut [] (cBody c) = Some (front, oldDut, rest)"
    by (auto simp: prerequisites_def Let_def split: if_splits option.splits)
  have nodiag: "sDiags ?s = []"
    using scan_no_error_no_diags [OF ok] by (simp add: scanInit_def)
  from run ok wn mv fd split nodiag show ?thesis
    by (auto simp: runOnOperation_def injectHierarchy_def split: sum.splits prod.splits)
qed

lemma run_result_body:
  assumes pre: "prerequisites c = Some (wn, mv, front, oldDut, rest)"
    and split: "splitDUT oldDut wn mv (circuitNamespace c) = (dut, wrapper, wi, ns)"
    and run: "runOnOperation c = Inr r"
  shows "\<exists>front' rest' st'.
           processNLAs dut wrapper wi (dutPathsOf dut) (dutPortSymsOf dut) (front @ rest)
             \<lparr>circuitNS = ns, dutRenames = []\<rparr> = Inr (front' @ rest', st')
           \<and> cBody (circuit r) =
               front' @ [Module (updateRWProbes wrapper), Module (retargetDut (dutRenames st') dut)]
               @ rest'"
proof -
  from run_result_parts [OF pre split run] obtain front' st1 rest' st' where
    a: "processNLAs dut wrapper wi (dutPathsOf dut) (dutPortSymsOf dut) front
             \<lparr>circuitNS = ns, dutRenames = []\<rparr> = Inr (front', st1)"
    and b: "processNLAs dut wrapper wi (dutPathsOf dut) (dutPortSymsOf dut) rest st1
               = Inr (rest', st')"
    and r: "r = \<lparr>diagnostics = [], passFailed = False, allAnalysesPreserved = False,
                   circuit = c\<lparr>cBody :=
                     front'
                     @ [Module (updateRWProbes wrapper), Module (retargetDut (dutRenames st') dut)]
                     @ rest'\<rparr>\<rparr>"
    by blast
  from a b have "processNLAs dut wrapper wi (dutPathsOf dut) (dutPortSymsOf dut) (front @ rest)
             \<lparr>circuitNS = ns, dutRenames = []\<rparr> = Inr (front' @ rest', st')"
    by (simp add: processNLAs_append)
  moreover from r have "cBody (circuit r) =
               front' @ [Module (updateRWProbes wrapper), Module (retargetDut (dutRenames st') dut)]
               @ rest'"
    by simp
  ultimately show ?thesis by blast
qed

lemma run_without_prerequisites:
  assumes "prerequisites c = None" and "runOnOperation c = Inr r"
  shows "circuit r = c"
  using assms
  by (auto simp: prerequisites_def runOnOperation_def Let_def split: if_splits option.splits)

text \<open>A run that changes the circuit went past the directive and found the DUT.\<close>

lemma prerequisites_of_change:
  assumes "runOnOperation c = Inr r" and "\<not> passFailed r" and "\<not> allAnalysesPreserved r"
  shows "prerequisites c \<noteq> None"
  using assms
  by (auto simp: prerequisites_def runOnOperation_def Let_def split: if_splits option.splits)

text \<open>What the run does at one path that touches the DUT.\<close>

lemma run_at_path:
  assumes pre: "prerequisites c = Some (wn, mv, front, oldDut, rest)"
    and split: "splitDUT oldDut wn mv (circuitNamespace c) = (dut, wrapper, wi, ns)"
    and run: "runOnOperation c = Inr r"
    and p: "HierPath p \<in> set (cBody c)"
    and t: "touches (mName oldDut) p"
  shows "\<exists>xs ys xs' st1 out st2 ys' st'.
           front @ rest = xs @ HierPath p # ys
           \<and> processNLAs dut wrapper wi (dutPathsOf dut) (dutPortSymsOf dut) xs
                \<lparr>circuitNS = ns, dutRenames = []\<rparr> = Inr (xs', st1)
           \<and> processNLA dut wrapper wi (dutPathsOf dut) (dutPortSymsOf dut) p st1 = Inr (out, st2)
           \<and> processNLAs dut wrapper wi (dutPathsOf dut) (dutPortSymsOf dut) ys st2 = Inr (ys', st')
           \<and> HierPath ` set out \<subseteq> set (cBody (circuit r))
           \<and> Module (retargetDut (dutRenames st') dut) \<in> set (cBody (circuit r))"
proof -
  from run_result_body [OF pre split run] obtain front' rest' st' where
    all: "processNLAs dut wrapper wi (dutPathsOf dut) (dutPortSymsOf dut) (front @ rest)
             \<lparr>circuitNS = ns, dutRenames = []\<rparr> = Inr (front' @ rest', st')"
    and body: "cBody (circuit r) =
               front' @ [Module (updateRWProbes wrapper), Module (retargetDut (dutRenames st') dut)]
               @ rest'"
    by blast
  from p prerequisites_body [OF pre] have "HierPath p \<in> set (front @ rest)" by auto
  then obtain xs ys where xy: "front @ rest = xs @ HierPath p # ys"
    by (auto simp: in_set_conv_decomp simp del: set_append)
  from t splitDUT_facts(1) [OF split] have t': "touches (mName dut) p" by simp
  from all [unfolded xy] t' have
    "\<exists>xs' st1 out st2 ys'.
       processNLAs dut wrapper wi (dutPathsOf dut) (dutPortSymsOf dut) xs
         \<lparr>circuitNS = ns, dutRenames = []\<rparr> = Inr (xs', st1)
       \<and> processNLA dut wrapper wi (dutPathsOf dut) (dutPortSymsOf dut) p st1 = Inr (out, st2)
       \<and> processNLAs dut wrapper wi (dutPathsOf dut) (dutPortSymsOf dut) ys st2 = Inr (ys', st')
       \<and> front' @ rest' = xs' @ map HierPath out @ ys'"
    by (rule processNLAs_at)
  then obtain xs' st1 out st2 ys' where
    a: "processNLAs dut wrapper wi (dutPathsOf dut) (dutPortSymsOf dut) xs
         \<lparr>circuitNS = ns, dutRenames = []\<rparr> = Inr (xs', st1)"
    and b: "processNLA dut wrapper wi (dutPathsOf dut) (dutPortSymsOf dut) p st1 = Inr (out, st2)"
    and c: "processNLAs dut wrapper wi (dutPathsOf dut) (dutPortSymsOf dut) ys st2 = Inr (ys', st')"
    and d: "front' @ rest' = xs' @ map HierPath out @ ys'"
    by blast
  have "set (front' @ rest') \<subseteq> set (cBody (circuit r))"
    by (auto simp: body)
  with d have "HierPath ` set out \<subseteq> set (cBody (circuit r))" by auto
  moreover have "Module (retargetDut (dutRenames st') dut) \<in> set (cBody (circuit r))"
    by (simp add: body)
  ultimately show ?thesis using xy a b c by blast
qed

lemma root_touches: "root p = Some m \<Longrightarrow> touches m p"
  by (auto simp: root_def touches_def split: list.splits)

lemma leafMod_Some:
  "leafMod p = Some m \<longleftrightarrow> namepath p \<noteq> [] \<and> modPart (last (namepath p)) = m"
  by (cases "namepath p") (auto simp: leafMod_def)

lemma leafMod_touches: "leafMod p = Some m \<Longrightarrow> touches m p"
  unfolding leafMod_Some touches_def using last_in_set [of "namepath p"] by auto

lemma map_filter_set: "y \<in> set (List.map_filter f xs) \<longleftrightarrow> (\<exists>x \<in> set xs. f x = Some y)"
  by (induction xs) (auto simp: List.map_filter_simps split: option.splits)

lemma root_leaf_single:
  assumes "distinct (map modPart (namepath p))" and "root p = Some m" and "leafMod p = Some m"
  shows "length (namepath p) = 1"
proof (cases "namepath p")
  case Nil
  with assms(2) show ?thesis by (simp add: root_def)
next
  case (Cons e es)
  show ?thesis
  proof (cases es)
    case Nil
    with Cons show ?thesis by simp
  next
    case (Cons e' es')
    with \<open>namepath p = e # es\<close> assms(2,3) have "modPart e = m" "modPart (last es) = m" "es \<noteq> []"
      by (auto simp: root_def leafMod_Some)
    then have "modPart e \<in> modPart ` set es"
      by (metis imageI last_in_set)
    with assms(1) \<open>namepath p = e # es\<close> show ?thesis by simp
  qed
qed

lemma dutPortSymsOf_iff: "s \<in> set (dutPortSymsOf dut) \<longleftrightarrow> Some s \<in> pSym ` set (mPorts dut)"
  by (force simp: dutPortSymsOf_def map_filter_set image_iff)

lemma prerequisites_getDut:
  "prerequisites c = Some (wn, mv, front, oldDut, rest) \<Longrightarrow> getDut c = Some oldDut"
  by (auto simp: prerequisites_def getDut_def Let_def split: if_splits option.splits)

subsection \<open>The example run\<close>

lemma example_run:
  "runOnOperation (exCircuit [exDirective]) =
     Inr \<lparr>diagnostics = [], passFailed = False, allAnalysesPreserved = False,
          circuit = \<lparr>cAnnotations = [exDirective], cBody = exResultBody\<rparr>\<rparr>"
  by code_simp

lemma example_prerequisites:
  "prerequisites (exCircuit [exDirective]) =
     Some (''Wrapper'', False, [HierPath exNla1, HierPath exNla2, Module exTop], exD,
           [HierPath exNla3, HierPath exNla4, HierPath exNla5])"
  by code_simp

lemma example_split:
  "splitDUT exD ''Wrapper'' False (circuitNamespace (exCircuit [exDirective])) =
     (exShell, exWrapper, exWrapperInst, ''Wrapper'' # circuitNamespace (exCircuit [exDirective]))"
  by code_simp

subsection \<open>Paths that end at a port, paths rooted at the DUT\<close>

text \<open>
  C5. A path that ends at a port of the DUT is in the circuit after the run as it was before:
  the same symbol and the same locators. The path is an instantiation route, so no module is
  named twice on it.
\<close>

theorem port_leaf_path_unmodified:
  assumes run: "runOnOperation c = Inr r"
    and dut: "getDut c = Some oldDut"
    and p: "HierPath p \<in> set (cBody c)"
    and leaf: "leafMod p = Some (mName oldDut)"
    and comp: "ref p = Some s"
    and port: "Some s \<in> pSym ` set (mPorts oldDut)"
    and wf: "distinct (map modPart (namepath p))"
  shows "HierPath p \<in> set (cBody (circuit r))"
proof (cases "prerequisites c")
  case None
  from run_without_prerequisites [OF None run] have "circuit r = c" .
  with p show ?thesis by simp
next
  case (Some t)
  then obtain wn mv front oldDut' rest where
    pre': "prerequisites c = Some (wn, mv, front, oldDut', rest)"
    by (cases t) auto
  with dut have "oldDut' = oldDut" by (auto dest: prerequisites_getDut)
  with pre' have pre: "prerequisites c = Some (wn, mv, front, oldDut, rest)" by simp
  obtain shell wrapper wi ns where
    split: "splitDUT oldDut wn mv (circuitNamespace c) = (shell, wrapper, wi, ns)"
    by (cases "splitDUT oldDut wn mv (circuitNamespace c)") auto
  note facts = splitDUT_facts [OF split]
  from leaf have t: "touches (mName oldDut) p" by (rule leafMod_touches)
  from run_at_path [OF pre split run p t] obtain st1 out st2 where
    step: "processNLA shell wrapper wi (dutPathsOf shell) (dutPortSymsOf shell) p st1 = Inr (out, st2)"
    and out: "HierPath ` set out \<subseteq> set (cBody (circuit r))"
    by blast
  have notroot: "root p \<noteq> Some (mName shell)"
  proof
    assume r: "root p = Some (mName shell)"
    with wf leaf facts(1) have "length (namepath p) = 1" by (simp add: root_leaf_single)
    with step r show False by (simp add: processNLA_root)
  qed
  from port facts(7) have "s \<in> set (dutPortSymsOf shell)" by (simp add: dutPortSymsOf_iff)
  with notroot leaf comp facts(1)
  have "processNLA shell wrapper wi (dutPathsOf shell) (dutPortSymsOf shell) p st1 = Inr ([p], st1)"
    by (simp add: processNLA_port)
  with step out show ?thesis by auto
qed


theorem port_leaf_path_unmodified_witness:
  "HierPath exNla4 \<in> set exResultBody"
proof -
  have dut: "getDut (exCircuit [exDirective]) = Some exD"
    by code_simp
  have p: "HierPath exNla4 \<in> set (cBody (exCircuit [exDirective]))"
    by (simp add: exCircuit_def exBody_def)
  have leaf: "leafMod exNla4 = Some (mName exD)" and comp: "ref exNla4 = Some ''b''"
    and port: "Some ''b'' \<in> pSym ` set (mPorts exD)"
    and wf: "distinct (map modPart (namepath exNla4))"
    by code_simp+
  from port_leaf_path_unmodified [OF example_run dut p leaf comp port wf] show ?thesis
    by simp
qed

text \<open>
  C4. A path rooted at the DUT keeps its symbol, its length and every locator but the first;
  the first keeps its inner symbol and names the wrapper, the module the DUT was renamed to.
  The loop makes no clone of it and leaves the namespace and the renames as they were.
\<close>

theorem root_path_only_renamed:
  assumes pre: "prerequisites c = Some (wn, mv, front, oldDut, rest)"
    and split: "splitDUT oldDut wn mv (circuitNamespace c) = (dut, wrapper, wi, ns)"
    and run: "runOnOperation c = Inr r"
    and p: "HierPath p \<in> set (cBody c)"
    and root: "root p = Some (mName oldDut)"
  shows "\<exists>s tail.
           namepath p = InnerRefAttr (mName oldDut) s # tail \<and> tail \<noteq> []
           \<and> (\<forall>st. processNLA dut wrapper wi (dutPathsOf dut) (dutPortSymsOf dut) p st =
                     Inr ([p\<lparr>namepath := InnerRefAttr (mName wrapper) s # tail\<rparr>], st))
           \<and> HierPath (p\<lparr>namepath := InnerRefAttr (mName wrapper) s # tail\<rparr>)
               \<in> set (cBody (circuit r))"
proof -
  note facts = splitDUT_facts [OF split]
  from root have t: "touches (mName oldDut) p" by (rule root_touches)
  from run_at_path [OF pre split run p t] obtain st1 out st2 where
    step: "processNLA dut wrapper wi (dutPathsOf dut) (dutPortSymsOf dut) p st1 = Inr (out, st2)"
    and out: "HierPath ` set out \<subseteq> set (cBody (circuit r))"
    by blast
  from root facts(1) have root': "root p = Some (mName dut)" by simp
  from step have long: "1 < length (namepath p)"
    by (simp add: processNLA_root [OF root'] split: if_splits)
  then obtain e tail where np: "namepath p = e # tail" and tail: "tail \<noteq> []"
    by (cases "namepath p") auto
  from step long np obtain m s where e: "e = InnerRefAttr m s"
    by (cases e) (simp_all add: processNLA_root [OF root'])
  from root np e have m: "m = mName oldDut" by (simp add: root_def)
  have all: "\<forall>st. processNLA dut wrapper wi (dutPathsOf dut) (dutPortSymsOf dut) p st =
                     Inr ([p\<lparr>namepath := InnerRefAttr (mName wrapper) s # tail\<rparr>], st)"
    using long np e by (simp add: processNLA_root [OF root'])
  with step out have "HierPath (p\<lparr>namepath := InnerRefAttr (mName wrapper) s # tail\<rparr>)
               \<in> set (cBody (circuit r))"
    by auto
  with np e m tail all show ?thesis by blast
qed

theorem root_path_only_renamed_witness:
  "HierPath \<lparr>symName = ''nla3'',
             namepath = [InnerRefAttr ''Wrapper'' ''sub'', FlatSymbolRefAttr ''Sub'']\<rparr>
     \<in> set exResultBody"
proof -
  have p: "HierPath exNla3 \<in> set (cBody (exCircuit [exDirective]))"
    by (simp add: exCircuit_def exBody_def)
  have root: "root exNla3 = Some (mName exD)"
    by code_simp
  from root_path_only_renamed [OF example_prerequisites example_split example_run p root]
  obtain s tail where
    "namepath exNla3 = InnerRefAttr (mName exD) s # tail"
    and "HierPath (exNla3\<lparr>namepath := InnerRefAttr (mName exWrapper) s # tail\<rparr>)
           \<in> set exResultBody"
    by auto
  then show ?thesis
    by (simp add: exNla3_def exWrapper_def)
qed

subsection \<open>Adding the hierarchy\<close>

lemma wireUp_body:
  "mBody (wireUp d w wi) = Instance wi # map (connectPort d wi) [0..<length (mPorts w)] @ mBody d"
  by (simp add: wireUp_def)

lemma run_at_pathE:
  assumes pre: "prerequisites c = Some (wn, mv, front, oldDut, rest)"
    and split: "splitDUT oldDut wn mv (circuitNamespace c) = (dut, wrapper, wi, ns)"
    and run: "runOnOperation c = Inr r"
    and p: "HierPath p \<in> set (cBody c)"
    and t: "touches (mName oldDut) p"
  obtains xs ys xs' st1 out st2 ys' st' where
    "front @ rest = xs @ HierPath p # ys"
    and "processNLAs dut wrapper wi (dutPathsOf dut) (dutPortSymsOf dut) xs
                \<lparr>circuitNS = ns, dutRenames = []\<rparr> = Inr (xs', st1)"
    and "processNLA dut wrapper wi (dutPathsOf dut) (dutPortSymsOf dut) p st1 = Inr (out, st2)"
    and "processNLAs dut wrapper wi (dutPathsOf dut) (dutPortSymsOf dut) ys st2 = Inr (ys', st')"
    and "HierPath ` set out \<subseteq> set (cBody (circuit r))"
    and "Module (retargetDut (dutRenames st') dut) \<in> set (cBody (circuit r))"
  using run_at_path [OF pre split run p t]
  by (elim exE conjE) (rule that)

text \<open>
  C2, as amended. A path that touches the DUT, is not rooted at it and does not end at one of
  its ports grows by one locator. The locator that names the DUT is replaced by two: the inner
  reference to the wrapper instance in the new DUT, then the old locator with the wrapper as
  its module. The locators in front of it and behind it stay as they are.
\<close>

theorem hierarchy_added_at_dut_locator:
  assumes pre: "prerequisites c = Some (wn, mv, front, oldDut, rest)"
    and split: "splitDUT oldDut wn mv (circuitNamespace c) = (dut, wrapper, wi, ns)"
    and run: "runOnOperation c = Inr r"
    and p: "HierPath p \<in> set (cBody c)"
    and t: "touches (mName oldDut) p"
    and notroot: "root p \<noteq> Some (mName oldDut)"
    and notport: "\<not> (leafMod p = Some (mName oldDut)
                      \<and> (\<exists>s. ref p = Some s \<and> Some s \<in> pSym ` set (mPorts oldDut)))"
  shows "\<exists>before d behind instSym shell.
           namepath p = before @ d # behind
           \<and> modPart d = mName oldDut \<and> mName oldDut \<notin> modPart ` set before
           \<and> Module shell \<in> set (cBody (circuit r)) \<and> mName shell = mName oldDut
           \<and> hd (mBody shell) = Instance wi
           \<and> instModuleName wi = mName wrapper \<and> instInnerSym wi = Some instSym
           \<and> HierPath (p\<lparr>namepath :=
                  before
                  @ [InnerRefAttr (mName oldDut) instSym,
                     (case d of
                        InnerRefAttr m s \<Rightarrow> InnerRefAttr (mName wrapper) s
                      | FlatSymbolRefAttr m \<Rightarrow> FlatSymbolRefAttr (mName wrapper))]
                  @ behind\<rparr>) \<in> set (cBody (circuit r))"
proof -
  note facts = splitDUT_facts [OF split]
  from facts(6) obtain instSym where sym: "instInnerSym wi = Some instSym" by blast
  from t facts(1) have t': "touches (mName dut) p" by simp
  obtain xs ys xs' st1 out st2 ys' st' where
    "front @ rest = xs @ HierPath p # ys"
    and "processNLAs dut wrapper wi (dutPathsOf dut) (dutPortSymsOf dut) xs
                \<lparr>circuitNS = ns, dutRenames = []\<rparr> = Inr (xs', st1)"
    and step: "processNLA dut wrapper wi (dutPathsOf dut) (dutPortSymsOf dut) p st1 = Inr (out, st2)"
    and "processNLAs dut wrapper wi (dutPathsOf dut) (dutPortSymsOf dut) ys st2 = Inr (ys', st')"
    and out: "HierPath ` set out \<subseteq> set (cBody (circuit r))"
    and shell: "Module (retargetDut (dutRenames st') dut) \<in> set (cBody (circuit r))"
    by (rule run_at_pathE [OF pre split run p t])
  from addHierarchy_touching [OF t' sym] obtain before d behind where
    np: "namepath p = before @ d # behind" and d: "modPart d = mName dut"
    and before: "mName dut \<notin> modPart ` set before"
    and add: "addHierarchy p dut wi =
               Inr (p\<lparr>namepath :=
                      before
                      @ [InnerRefAttr (mName dut) instSym,
                         (case d of
                            InnerRefAttr m s \<Rightarrow> InnerRefAttr (instModuleName wi) s
                          | FlatSymbolRefAttr m \<Rightarrow> FlatSymbolRefAttr (instModuleName wi))]
                      @ behind\<rparr>)"
    by blast
  let ?p' = "p\<lparr>namepath :=
                  before
                  @ [InnerRefAttr (mName oldDut) instSym,
                     (case d of
                        InnerRefAttr m s \<Rightarrow> InnerRefAttr (mName wrapper) s
                      | FlatSymbolRefAttr m \<Rightarrow> FlatSymbolRefAttr (mName wrapper))]
                  @ behind\<rparr>"
  from notroot facts(1) have nr: "root p \<noteq> Some (mName dut)" by simp
  from notport facts(1,7) have np': "\<not> portLeaf (mName dut) (dutPortSymsOf dut) p"
    by (auto simp: portLeaf_def dutPortSymsOf_iff split: option.splits)
  from add facts(1,4) have add': "addHierarchy p dut wi = Inr ?p'" by (cases d) simp_all
  have "out = [?p'] \<or> out = [fst (clonePath p st1), ?p']"
    using step unfolding processNLA_extend [OF nr np'] add' by (simp split: if_splits)
  then have "?p' \<in> set out" by auto
  with out have res: "HierPath ?p' \<in> set (cBody (circuit r))" by blast
  have name: "mName (retargetDut (dutRenames st') dut) = mName oldDut"
    by (simp add: retargetDut_def facts(1))
  have inst: "hd (mBody (retargetDut (dutRenames st') dut)) = Instance wi"
    using split by (simp add: retargetDut_def splitDUT_eq wireUp_body)
  from d facts(1) have d': "modPart d = mName oldDut" by simp
  from before facts(1) have before': "mName oldDut \<notin> modPart ` set before" by simp
  show ?thesis
    apply (rule exI [of _ before], rule exI [of _ d], rule exI [of _ behind])
    apply (rule exI [of _ instSym], rule exI [of _ "retargetDut (dutRenames st') dut"])
    using np d' before' shell name inst facts(4) sym res
    apply (intro conjI)
            apply assumption+
    done
qed

theorem hierarchy_added_at_dut_locator_witness:
  "HierPath \<lparr>symName = ''nla2'',
             namepath = [InnerRefAttr ''Top'' ''d'', InnerRefAttr ''D'' ''Wrapper'',
                         InnerRefAttr ''Wrapper'' ''x'']\<rparr> \<in> set exResultBody"
proof -
  have p: "HierPath exNla2 \<in> set (cBody (exCircuit [exDirective]))"
    by (simp add: exCircuit_def exBody_def)
  have t: "touches (mName exD) exNla2" and notroot: "root exNla2 \<noteq> Some (mName exD)"
    by code_simp+
  have notport: "\<not> (leafMod exNla2 = Some (mName exD)
                      \<and> (\<exists>s. ref exNla2 = Some s \<and> Some s \<in> pSym ` set (mPorts exD)))"
    by (auto simp: exNla2_def ref_def exD_def exPortA_def exPortB_def)
  from hierarchy_added_at_dut_locator
         [OF example_prerequisites example_split example_run p t notroot notport]
  obtain before d behind instSym where
    np: "namepath exNla2 = before @ d # behind" and d: "modPart d = mName exD"
    and b: "mName exD \<notin> modPart ` set before"
    and i: "instInnerSym exWrapperInst = Some instSym"
    and res: "HierPath (exNla2\<lparr>namepath :=
                  before
                  @ [InnerRefAttr (mName exD) instSym,
                     (case d of
                        InnerRefAttr m s \<Rightarrow> InnerRefAttr (mName exWrapper) s
                      | FlatSymbolRefAttr m \<Rightarrow> FlatSymbolRefAttr (mName exWrapper))]
                  @ behind\<rparr>) \<in> set exResultBody"
    by auto
  from np d b have "before = [InnerRefAttr ''Top'' ''d''] \<and> d = InnerRefAttr ''D'' ''x'' \<and> behind = []"
    by (auto simp: exNla2_def exD_def Cons_eq_append_conv)
  with res i show ?thesis
    by (simp add: exNla2_def exD_def exWrapper_def exWrapperInst_def)
qed

text \<open>
  In the example the path \<open>nla2\<close>, the route \<open>Top::d, D::x\<close>, becomes
  \<open>Top::d, D::Wrapper, Wrapper::x\<close>: the new locator stands where the locator naming the DUT
  stood, not behind it, and that locator is not kept as it was.
\<close>

theorem new_locator_stands_before_renamed_one:
  "runOnOperation (exCircuit [exDirective]) =
     Inr \<lparr>diagnostics = [], passFailed = False, allAnalysesPreserved = False,
          circuit = \<lparr>cAnnotations = [exDirective], cBody = exResultBody\<rparr>\<rparr>
   \<and> [namepath q. HierPath q \<leftarrow> cBody (exCircuit [exDirective]), symName q = ''nla2'']
       = [[InnerRefAttr ''Top'' ''d'', InnerRefAttr ''D'' ''x'']]
   \<and> [namepath q. HierPath q \<leftarrow> exResultBody, symName q = ''nla2'']
       = [[InnerRefAttr ''Top'' ''d'', InnerRefAttr ''D'' ''Wrapper'', InnerRefAttr ''Wrapper'' ''x'']]
   \<and> [InnerRefAttr ''Top'' ''d'', InnerRefAttr ''D'' ''Wrapper'', InnerRefAttr ''Wrapper'' ''x'']
       \<noteq> [InnerRefAttr ''Top'' ''d'', InnerRefAttr ''D'' ''x''] @ [InnerRefAttr ''D'' ''Wrapper'']
   \<and> InnerRefAttr ''D'' ''x'' \<notin> set [InnerRefAttr ''Top'' ''d'', InnerRefAttr ''D'' ''Wrapper'',
                                     InnerRefAttr ''Wrapper'' ''x'']"
  by code_simp

subsection \<open>The root case\<close>

lemma processNLA_root_ok:
  assumes "root p = Some (mName dut)"
  shows "(\<exists>res. processNLA dut w wi dp dps p st = Inr res) \<longleftrightarrow> rootCaseOk p"
    and "processNLA dut w wi dp dps p st = Inl a \<Longrightarrow> a = AssertionFailed \<or> a = CastFailed"
  using assms
  by (auto simp: processNLA_def rootCaseOk_def root_def
           split: list.splits NamepathAttr.splits if_splits)

lemma processNLA_other_ok:
  assumes "root p \<noteq> Some (mName dut)" and "touches (mName dut) p"
    and "instInnerSym wi = Some instSym"
  shows "\<exists>res. processNLA dut w wi dp dps p st = Inr res"
proof (cases "portLeaf (mName dut) dps p")
  case True
  with assms(1) show ?thesis
    by (auto simp: processNLA_def portLeaf_def isComponent_def split: option.splits)
next
  case False
  from addHierarchy_touching [OF assms(2,3)] obtain p' where "addHierarchy p dut wi = Inr p'"
    by blast
  then show ?thesis
    by (simp add: processNLA_extend [OF assms(1) False])
qed

lemma processNLAs_completes:
  assumes "instInnerSym wi = Some instSym"
    and "\<forall>p. HierPath p \<in> set ops \<and> root p = Some (mName dut) \<longrightarrow> rootCaseOk p"
  shows "\<exists>res. processNLAs dut w wi dp dps ops st = Inr res"
  using assms(2)
proof (induction ops arbitrary: st)
  case Nil
  show ?case by simp
next
  case (Cons y ops)
  from Cons.prems have rest: "\<forall>p. HierPath p \<in> set ops \<and> root p = Some (mName dut) \<longrightarrow> rootCaseOk p"
    by simp
  show ?case
  proof (cases y)
    case (Module m)
    from Cons.IH [OF rest, of st] obtain res where "processNLAs dut w wi dp dps ops st = Inr res"
      by blast
    with Module show ?thesis by (cases res) simp
  next
    case (HierPath q)
    show ?thesis
    proof (cases "touches (mName dut) q")
      case False
      from Cons.IH [OF rest, of st] obtain res where "processNLAs dut w wi dp dps ops st = Inr res"
        by blast
      with HierPath False show ?thesis by (cases res) simp
    next
      case True
      have "\<exists>res. processNLA dut w wi dp dps q st = Inr res"
      proof (cases "root q = Some (mName dut)")
        case True
        with Cons.prems HierPath have "rootCaseOk q" by simp
        with processNLA_root_ok(1) [OF True, of w wi dp dps st] show ?thesis by blast
      next
        case False
        from processNLA_other_ok [OF False True assms(1)] show ?thesis .
      qed
      then obtain out st1 where step: "processNLA dut w wi dp dps q st = Inr (out, st1)"
        by auto
      from Cons.IH [OF rest, of st1] obtain res where "processNLAs dut w wi dp dps ops st1 = Inr res"
        by blast
      with HierPath True step show ?thesis by (cases res) simp
    qed
  qed
qed

lemma processNLAs_abort:
  assumes "processNLAs dut w wi dp dps ops st = Inl a" and "instInnerSym wi = Some instSym"
  shows "(a = AssertionFailed \<or> a = CastFailed)
       \<and> (\<exists>p. HierPath p \<in> set ops \<and> root p = Some (mName dut) \<and> \<not> rootCaseOk p)"
  using assms(1)
proof (induction ops arbitrary: st)
  case Nil
  then show ?case by simp
next
  case (Cons y ops)
  show ?case
  proof (cases "processNLAs dut w wi dp dps (y # ops) st = Inl a
                \<and> (\<exists>st1. processNLAs dut w wi dp dps ops st1 = Inl a)")
    case True
    then obtain st1 where "processNLAs dut w wi dp dps ops st1 = Inl a" by blast
    from Cons.IH [OF this] show ?thesis by auto
  next
    case False
    with Cons.prems obtain q where y: "y = HierPath q" and t: "touches (mName dut) q"
      and step: "processNLA dut w wi dp dps q st = Inl a"
      by (cases y) (auto split: sum.splits prod.splits if_splits)
    have r: "root q = Some (mName dut)"
    proof (rule ccontr)
      assume "root q \<noteq> Some (mName dut)"
      from processNLA_other_ok [OF this t assms(2), of w dp dps st] obtain res where
        "processNLA dut w wi dp dps q st = Inr res" by blast
      with step show False by simp
    qed
    from processNLA_root_ok(2) [OF r step] have kind: "a = AssertionFailed \<or> a = CastFailed" .
    have "\<not> rootCaseOk q"
    proof
      assume "rootCaseOk q"
      with processNLA_root_ok(1) [OF r, of w wi dp dps st] obtain res where
        "processNLA dut w wi dp dps q st = Inr res" by blast
      with step show False by simp
    qed
    note kind this
    with y r show ?thesis by auto
  qed
qed


lemma run_outcome:
  assumes pre: "prerequisites c = Some (wn, mv, front, oldDut, rest)"
    and split: "splitDUT oldDut wn mv (circuitNamespace c) = (dut, wrapper, wi, ns)"
  shows "runOnOperation c = Inl a \<longleftrightarrow>
           processNLAs dut wrapper wi (dutPathsOf dut) (dutPortSymsOf dut) (front @ rest)
             \<lparr>circuitNS = ns, dutRenames = []\<rparr> = Inl a"
    and "(\<exists>r. runOnOperation c = Inr r) \<longleftrightarrow>
           (\<exists>res. processNLAs dut wrapper wi (dutPathsOf dut) (dutPortSymsOf dut) (front @ rest)
             \<lparr>circuitNS = ns, dutRenames = []\<rparr> = Inr res)"
proof -
  let ?s = "scanAnnotations (cAnnotations c) scanInit"
  from pre have ok: "\<not> sError ?s" and wn: "sWrapperName ?s = Some wn" and mv: "sMoveDut ?s = mv"
    and fd: "findDut [] (cBody c) = Some (front, oldDut, rest)"
    by (auto simp: prerequisites_def Let_def split: if_splits option.splits)
  from ok wn mv fd split
  show "runOnOperation c = Inl a \<longleftrightarrow>
           processNLAs dut wrapper wi (dutPathsOf dut) (dutPortSymsOf dut) (front @ rest)
             \<lparr>circuitNS = ns, dutRenames = []\<rparr> = Inl a"
    by (simp add: runOnOperation_def injectHierarchy_def processNLAs_append
             split: sum.splits prod.splits)
  from ok wn mv fd split
  show "(\<exists>r. runOnOperation c = Inr r) \<longleftrightarrow>
           (\<exists>res. processNLAs dut wrapper wi (dutPathsOf dut) (dutPortSymsOf dut) (front @ rest)
             \<lparr>circuitNS = ns, dutRenames = []\<rparr> = Inr res)"
    by (simp add: runOnOperation_def injectHierarchy_def processNLAs_append
             split: sum.splits prod.splits)
qed

text \<open>
  C9. With a well-formed directive and a DUT, the run completes exactly when every path rooted
  at the DUT has more than one locator and an inner reference as its first; the assertion and
  the cast of the root case are the only ways for it to stop. A path of the single locator
  that names the DUT module stops it.
\<close>

theorem root_case_precondition:
  assumes pre: "prerequisites c = Some (wn, mv, front, oldDut, rest)"
  shows "((\<exists>r. runOnOperation c = Inr r) \<longleftrightarrow>
            (\<forall>p. HierPath p \<in> set (cBody c) \<and> root p = Some (mName oldDut) \<longrightarrow> rootCaseOk p))
       \<and> (\<forall>a. runOnOperation c = Inl a \<longrightarrow> a = AssertionFailed \<or> a = CastFailed)
       \<and> (\<forall>n. HierPath \<lparr>symName = n, namepath = [FlatSymbolRefAttr (mName oldDut)]\<rparr>
                 \<in> set (cBody c) \<longrightarrow>
              (\<exists>a. runOnOperation c = Inl a))"
proof -
  obtain dut wrapper wi ns where
    split: "splitDUT oldDut wn mv (circuitNamespace c) = (dut, wrapper, wi, ns)"
    by (cases "splitDUT oldDut wn mv (circuitNamespace c)") auto
  note facts = splitDUT_facts [OF split]
  from facts(6) obtain instSym where sym: "instInnerSym wi = Some instSym" by blast
  let ?P = "\<lambda>ops. processNLAs dut wrapper wi (dutPathsOf dut) (dutPortSymsOf dut) ops
                     \<lparr>circuitNS = ns, dutRenames = []\<rparr>"
  have paths: "\<And>p. HierPath p \<in> set (front @ rest) \<longleftrightarrow> HierPath p \<in> set (cBody c)"
    using prerequisites_body [OF pre] by auto
  have iff: "(\<exists>r. runOnOperation c = Inr r) \<longleftrightarrow>
            (\<forall>p. HierPath p \<in> set (cBody c) \<and> root p = Some (mName oldDut) \<longrightarrow> rootCaseOk p)"
  proof
    assume "\<exists>r. runOnOperation c = Inr r"
    then obtain r where run: "runOnOperation c = Inr r" by blast
    show "\<forall>p. HierPath p \<in> set (cBody c) \<and> root p = Some (mName oldDut) \<longrightarrow> rootCaseOk p"
    proof (intro allI impI, elim conjE)
      fix p
      assume p: "HierPath p \<in> set (cBody c)" and r: "root p = Some (mName oldDut)"
      from r have t: "touches (mName oldDut) p" by (rule root_touches)
      obtain xs ys xs' st1 out st2 ys' st' where
        "front @ rest = xs @ HierPath p # ys"
        and "processNLAs dut wrapper wi (dutPathsOf dut) (dutPortSymsOf dut) xs
                \<lparr>circuitNS = ns, dutRenames = []\<rparr> = Inr (xs', st1)"
        and step: "processNLA dut wrapper wi (dutPathsOf dut) (dutPortSymsOf dut) p st1 = Inr (out, st2)"
        and "processNLAs dut wrapper wi (dutPathsOf dut) (dutPortSymsOf dut) ys st2 = Inr (ys', st')"
        and "HierPath ` set out \<subseteq> set (cBody (circuit r))"
        and "Module (retargetDut (dutRenames st') dut) \<in> set (cBody (circuit r))"
        by (rule run_at_pathE [OF pre split run p t])
      from r facts(1) have r': "root p = Some (mName dut)" by simp
      from processNLA_root_ok(1) [OF r', of wrapper wi "dutPathsOf dut" "dutPortSymsOf dut" st1] step
      show "rootCaseOk p" by blast
    qed
  next
    assume ok: "\<forall>p. HierPath p \<in> set (cBody c) \<and> root p = Some (mName oldDut) \<longrightarrow> rootCaseOk p"
    then have "\<forall>p. HierPath p \<in> set (front @ rest) \<and> root p = Some (mName dut) \<longrightarrow> rootCaseOk p"
      using paths facts(1) by simp
    from processNLAs_completes [OF sym this] have "\<exists>res. ?P (front @ rest) = Inr res" .
    then show "\<exists>r. runOnOperation c = Inr r"
      by (simp only: run_outcome(2) [OF pre split])
  qed
  have kinds: "\<forall>a. runOnOperation c = Inl a \<longrightarrow> a = AssertionFailed \<or> a = CastFailed"
  proof (intro allI impI)
    fix a
    assume "runOnOperation c = Inl a"
    then have "?P (front @ rest) = Inl a" by (simp only: run_outcome(1) [OF pre split])
    from processNLAs_abort [OF this sym] show "a = AssertionFailed \<or> a = CastFailed" by blast
  qed
  have single: "\<forall>n. HierPath \<lparr>symName = n, namepath = [FlatSymbolRefAttr (mName oldDut)]\<rparr>
                 \<in> set (cBody c) \<longrightarrow> (\<exists>a. runOnOperation c = Inl a)"
  proof (intro allI impI)
    fix n
    let ?q = "\<lparr>symName = n, namepath = [FlatSymbolRefAttr (mName oldDut)]\<rparr>"
    assume q: "HierPath ?q \<in> set (cBody c)"
    have "root ?q = Some (mName oldDut)" "\<not> rootCaseOk ?q"
      by (simp_all add: root_def rootCaseOk_def)
    with q iff have "\<not> (\<exists>r. runOnOperation c = Inr r)" by blast
    then show "\<exists>a. runOnOperation c = Inl a"
      by (cases "runOnOperation c") auto
  qed
  from iff kinds single show ?thesis by blast
qed

theorem root_case_precondition_witness:
  "rootCaseOk exNla3
   \<and> (\<exists>a. runOnOperation
             \<lparr>cAnnotations = [exDirective],
              cBody = [HierPath \<lparr>symName = ''nla6'', namepath = [FlatSymbolRefAttr ''D'']\<rparr>,
                       Module exD]\<rparr> = Inl a)"
proof -
  have p: "HierPath exNla3 \<in> set (cBody (exCircuit [exDirective]))"
    and r: "root exNla3 = Some (mName exD)"
    by code_simp+
  from root_case_precondition [OF example_prerequisites] example_run p r
  have one: "rootCaseOk exNla3" by blast
  let ?c = "\<lparr>cAnnotations = [exDirective],
              cBody = [HierPath \<lparr>symName = ''nla6'', namepath = [FlatSymbolRefAttr ''D'']\<rparr>,
                       Module exD]\<rparr>"
  have pre: "prerequisites ?c =
               Some (''Wrapper'', False,
                     [HierPath \<lparr>symName = ''nla6'', namepath = [FlatSymbolRefAttr ''D'']\<rparr>],
                     exD, [])"
    by code_simp
  have q: "HierPath \<lparr>symName = ''nla6'', namepath = [FlatSymbolRefAttr (mName exD)]\<rparr>
             \<in> set (cBody ?c)"
    by code_simp
  from root_case_precondition [OF pre] q have "\<exists>a. runOnOperation ?c = Inl a" by blast
  with one show ?thesis by blast
qed

subsection \<open>The annotations after the run\<close>

lemma map_of_setMember:
  "map_of (setMember anno k v) k' = (if k' = k then Some v else map_of anno k')"
  by (induction anno k v rule: setMember.induct) auto


lemma nonlocalOf_setMember:
  "nonlocalOf (setMember anno ''circt.nonlocal'' (SymbolRefAttr n)) = Some n"
  by (simp add: nonlocalOf_def getMemberSymbolRef_def map_of_setMember)

lemma removeAndUpdateNLAs_Some:
  "removeAndUpdateNLAs renames anno = Some anno' \<longleftrightarrow>
     (\<exists>symbol cloneName. nonlocalOf anno = Some symbol \<and> map_of renames symbol = Some cloneName
        \<and> anno' = setMember anno ''circt.nonlocal'' (SymbolRefAttr cloneName))"
  by (auto simp: removeAndUpdateNLAs_def split: option.splits)

lemma removeAndUpdateNLAs_None:
  "removeAndUpdateNLAs renames anno = None \<longleftrightarrow>
     (case nonlocalOf anno of None \<Rightarrow> True | Some symbol \<Rightarrow> map_of renames symbol = None)"
  by (auto simp: removeAndUpdateNLAs_def split: option.splits)

lemma set_retarget:
  "set (retarget renames annos) =
     {anno \<in> set annos. removeAndUpdateNLAs renames anno = None}
     \<union> {anno'. \<exists>anno \<in> set annos. removeAndUpdateNLAs renames anno = Some anno'}"
  by (auto simp: retarget_def map_filter_set)



lemma run_modules:
  assumes pre: "prerequisites c = Some (wn, mv, front, oldDut, rest)"
    and split: "splitDUT oldDut wn mv (circuitNamespace c) = (dut, wrapper, wi, ns)"
    and run: "runOnOperation c = Inr r"
  obtains front' rest' renames where
    "cBody (circuit r) =
       front' @ [Module (updateRWProbes wrapper), Module (retargetDut renames dut)] @ rest'"
  using run_result_body [OF pre split run] by (elim exE conjE) (rule that)

lemma portInterface_retargetDut: "portInterface (retargetDut renames m) = portInterface m"
  by (simp add: portInterface_def retargetDut_def comp_def)

lemma portInterface_split:
  assumes "splitDUT oldDut wn mv ns0 = (dut, wrapper, wi, ns)"
  shows "portInterface dut = portInterface oldDut"
    and "portInterface (updateRWProbes wrapper) = portInterface oldDut"
  using assms
  by (simp_all add: splitDUT_eq portInterface_def wireUp_def newDUT_def makeWrapper_def
                    updateRWProbes_def comp_def)

text \<open>
  C1. After a run that injects the hierarchy, the new DUT stands behind the wrapper in the
  circuit, with the name and the port interface of the old DUT. Its body is the instance of
  the wrapper followed by one connection per port, in port order: an input port drives the
  result of the instance with its index, an output port is driven by it. The wrapper has the
  same port interface and the body of the old DUT.
\<close>

theorem shell_passes_ports_through:
  assumes pre: "prerequisites c = Some (wn, mv, front, oldDut, rest)"
    and split: "splitDUT oldDut wn mv (circuitNamespace c) = (dut, wrapper, wi, ns)"
    and run: "runOnOperation c = Inr r"
  shows "\<exists>shell wrapper' front' rest'.
           cBody (circuit r) = front' @ [Module wrapper', Module shell] @ rest'
           \<and> mName shell = mName oldDut \<and> mName wrapper' = mName wrapper
           \<and> portInterface shell = portInterface oldDut
           \<and> portInterface wrapper' = portInterface oldDut
           \<and> mBody wrapper' = map (updateRWProbe (mName wrapper)) (mBody oldDut)
           \<and> instModuleName wi = mName wrapper
           \<and> length (mBody shell) = Suc (length (mPorts oldDut))
           \<and> mBody shell ! 0 = Instance wi
           \<and> (\<forall>i < length (mPorts oldDut).
                 mBody shell ! Suc i =
                   (if pDirection (mPorts oldDut ! i) = In
                    then Connect (InstanceResult (instName wi) i) (Argument i)
                    else Connect (Argument i) (InstanceResult (instName wi) i)))"
proof -
  note facts = splitDUT_facts [OF split]
  obtain front' rest' renames where
    body: "cBody (circuit r) =
       front' @ [Module (updateRWProbes wrapper), Module (retargetDut renames dut)] @ rest'"
    by (rule run_modules [OF pre split run])
  let ?shell = "retargetDut renames dut"
  let ?wrapper = "updateRWProbes wrapper"
  have shellBody: "mBody ?shell =
                     Instance wi # map (connectPort (newDUT oldDut mv) wi) [0..<length (mPorts oldDut)]"
    using split
    by (simp add: splitDUT_eq retargetDut_def wireUp_def newDUT_def makeWrapper_def)
  have 1: "mName ?shell = mName oldDut" by (simp add: retargetDut_def facts(1))
  have 2: "mName ?wrapper = mName wrapper" by (simp add: updateRWProbes_def)
  have 3: "portInterface ?shell = portInterface oldDut"
    by (simp add: portInterface_retargetDut portInterface_split(1) [OF split])
  have 4: "portInterface ?wrapper = portInterface oldDut"
    by (rule portInterface_split(2) [OF split])
  have 5: "mBody ?wrapper = map (updateRWProbe (mName wrapper)) (mBody oldDut)"
    using split by (simp add: splitDUT_eq updateRWProbes_def makeWrapper_def)
  have 6: "length (mBody ?shell) = Suc (length (mPorts oldDut))"
    by (simp add: shellBody)
  have 7: "mBody ?shell ! 0 = Instance wi" by (simp add: shellBody)
  have 8: "\<forall>i < length (mPorts oldDut).
                 mBody ?shell ! Suc i =
                   (if pDirection (mPorts oldDut ! i) = In
                    then Connect (InstanceResult (instName wi) i) (Argument i)
                    else Connect (Argument i) (InstanceResult (instName wi) i))"
    by (simp add: shellBody connectPort_def emitConnect_def newDUT_def Let_def)
  show ?thesis
    apply (rule exI [of _ ?shell], rule exI [of _ ?wrapper])
    apply (rule exI [of _ front'], rule exI [of _ rest'])
    using body 1 2 3 4 5 facts(4) 6 7 8
    apply (intro conjI)
             apply assumption+
    done
qed

theorem shell_passes_ports_through_witness:
  "\<exists>shell wrapper' front' rest'.
     exResultBody = front' @ [Module wrapper', Module shell] @ rest'
     \<and> portInterface shell = [(''a'', In, None), (''b'', Out, Some ''b'')]
     \<and> mBody shell ! 0 = Instance exWrapperInst
     \<and> mBody shell ! 1 = Connect (InstanceResult ''Wrapper'' 0) (Argument 0)
     \<and> mBody shell ! 2 = Connect (Argument 1) (InstanceResult ''Wrapper'' 1)"
proof -
  have ports: "portInterface exD = [(''a'', In, None), (''b'', Out, Some ''b'')]"
    and dirs: "pDirection (mPorts exD ! 0) = In" "pDirection (mPorts exD ! 1) = Out"
    and len: "length (mPorts exD) = 2"
    and name: "instName exWrapperInst = ''Wrapper''"
    by code_simp+
  from shell_passes_ports_through [OF example_prerequisites example_split example_run]
  obtain shell wrapper' front' rest' where
    "cBody (circuit \<lparr>diagnostics = [], passFailed = False, allAnalysesPreserved = False,
          circuit = \<lparr>cAnnotations = [exDirective], cBody = exResultBody\<rparr>\<rparr>)
       = front' @ [Module wrapper', Module shell] @ rest'"
    and "portInterface shell = portInterface exD"
    and "mBody shell ! 0 = Instance exWrapperInst"
    and "\<forall>i < length (mPorts exD).
                 mBody shell ! Suc i =
                   (if pDirection (mPorts exD ! i) = In
                    then Connect (InstanceResult (instName exWrapperInst) i) (Argument i)
                    else Connect (Argument i) (InstanceResult (instName exWrapperInst) i))"
    by blast
  then have "exResultBody = front' @ [Module wrapper', Module shell] @ rest'
     \<and> portInterface shell = [(''a'', In, None), (''b'', Out, Some ''b'')]
     \<and> mBody shell ! 0 = Instance exWrapperInst
     \<and> mBody shell ! 1 = Connect (InstanceResult ''Wrapper'' 0) (Argument 0)
     \<and> mBody shell ! 2 = Connect (Argument 1) (InstanceResult ''Wrapper'' 1)"
    using ports dirs len name
    by (auto simp: numeral_2_eq_2 dest: spec [of _ 0] spec [of _ 1])
  then show ?thesis by blast
qed









subsection \<open>Cloning a path shared with the DUT\<close>

lemma retarget_retargeted:
  assumes m: "map_of renames symbol = Some cloneName" and v: "symbol \<notin> snd ` set renames"
  shows "retargeted symbol cloneName annos (retarget renames annos)"
  unfolding retargeted_def
proof (intro conjI ballI impI)
  fix anno
  assume "anno \<in> set annos" and "nonlocalOf anno = Some symbol"
  with m have "anno \<in> set annos"
    and "removeAndUpdateNLAs renames anno
           = Some (setMember anno ''circt.nonlocal'' (SymbolRefAttr cloneName))"
    by (simp_all add: removeAndUpdateNLAs_def)
  then show "setMember anno ''circt.nonlocal'' (SymbolRefAttr cloneName)
               \<in> set (retarget renames annos)"
    unfolding set_retarget by blast
next
  fix anno'
  assume "anno' \<in> set (retarget renames annos)"
  then have "removeAndUpdateNLAs renames anno' = None
             \<or> (\<exists>anno. removeAndUpdateNLAs renames anno = Some anno')"
    unfolding set_retarget by blast
  then show "nonlocalOf anno' \<noteq> Some symbol"
  proof
    assume "removeAndUpdateNLAs renames anno' = None"
    with m show ?thesis
      by (auto simp: removeAndUpdateNLAs_None split: option.splits)
  next
    assume "\<exists>anno. removeAndUpdateNLAs renames anno = Some anno'"
    then obtain anno s cn where "map_of renames s = Some cn"
      and "anno' = setMember anno ''circt.nonlocal'' (SymbolRefAttr cn)"
      unfolding removeAndUpdateNLAs_Some by blast
    then have "nonlocalOf anno' = Some cn" and "cn \<in> snd ` set renames"
      by (auto simp: nonlocalOf_setMember dest: map_of_SomeD intro: rev_image_eqI)
    with v show ?thesis by auto
  qed
qed

lemma retargetDut_ports:
  "list_all2 (\<lambda>q q'. pAnnotations q' = retarget renames (pAnnotations q))
     (mPorts dut) (mPorts (retargetDut renames dut))"
  by (simp add: retargetDut_def list_all2_map2 list_all2_same)

lemma dutPathsOf_iff:
  "symbol \<in> set (dutPathsOf dut) \<longleftrightarrow>
     (\<exists>anno \<in> set (mAnnotations dut). nonlocalOf anno = Some symbol)
     \<or> (\<exists>q \<in> set (mPorts dut). \<exists>anno \<in> set (pAnnotations q). nonlocalOf anno = Some symbol)"
  by (auto simp: dutPathsOf_def map_filter_set)

lemma ref_last:
  "namepath p \<noteq> [] \<Longrightarrow>
     ref p = (case last (namepath p) of InnerRefAttr m s \<Rightarrow> Some s | FlatSymbolRefAttr m \<Rightarrow> None)"
  by (cases "namepath p") (simp_all add: ref_def)

text \<open>A module path that ends at the DUT and names no module twice.\<close>

lemma module_leaf_namepath:
  assumes leaf: "leafMod p = Some m" and md: "isModule p"
    and wf: "distinct (map modPart (namepath p))"
    and np: "namepath p = before @ d # behind" and d: "modPart d = m"
  shows "behind = [] \<and> d = FlatSymbolRefAttr m \<and> before = butlast (namepath p)"
proof -
  have "behind = []"
  proof (rule ccontr)
    assume ne: "behind \<noteq> []"
    with leaf np have "modPart (last behind) = m" by (simp add: leafMod_Some)
    moreover from ne have "last behind \<in> set behind" by simp
    ultimately have "m \<in> modPart ` set behind" by (metis imageI)
    with wf np d show False by auto
  qed
  moreover with md np d have "d = FlatSymbolRefAttr m"
    by (cases d) (simp_all add: isModule_def isComponent_def ref_last)
  ultimately show ?thesis using np by simp
qed

lemma distinct_symbols_before:
  assumes "distinct (map topSymbol (xs @ HierPath p # ys))" and "HierPath q \<in> set xs"
  shows "symName q \<noteq> symName p"
proof
  assume "symName q = symName p"
  with assms(2) have "symName p \<in> topSymbol ` set xs"
    by (metis imageI topSymbol.simps(2))
  with assms(1) show False by simp
qed

text \<open>
  C3, as amended. A module path that ends at the DUT is cloned when its symbol is used by an
  annotation of the old DUT that is not a DUT marker moved to the wrapper by the flag, or by an
  annotation of one of its ports. The clone has a symbol that no operation of the circuit had
  and the locators of the path as they were. The path itself gets the extra level of
  hierarchy. On the new DUT, which carries the annotations of the old one without a marker
  that is moved, and on its ports every annotation scoped by the path is scoped by the clone
  instead, so none of them names the symbol of the rewritten path. The path is an
  instantiation route and the symbols of the circuit are unique.
\<close>

theorem shared_module_path_cloned:
  assumes pre: "prerequisites c = Some (wn, mv, front, oldDut, rest)"
    and split: "splitDUT oldDut wn mv (circuitNamespace c) = (dut, wrapper, wi, ns)"
    and run: "runOnOperation c = Inr r"
    and p: "HierPath p \<in> set (cBody c)"
    and leaf: "leafMod p = Some (mName oldDut)"
    and md: "isModule p"
    and used: "(\<exists>anno \<in> set (mAnnotations oldDut).
                   nonlocalOf anno = Some (symName p) \<and> \<not> (mv \<and> isClass anno dutAnnoClass))
               \<or> (\<exists>q \<in> set (mPorts oldDut). \<exists>anno \<in> set (pAnnotations q).
                     nonlocalOf anno = Some (symName p))"
    and wf: "distinct (map modPart (namepath p))"
    and uniq: "distinct (map topSymbol (cBody c))"
  shows "\<exists>cloneName instSym shell.
           cloneName \<notin> set (circuitNamespace c) \<and> cloneName \<noteq> mName wrapper
           \<and> cloneName \<noteq> symName p
           \<and> HierPath \<lparr>symName = cloneName, namepath = namepath p\<rparr> \<in> set (cBody (circuit r))
           \<and> instInnerSym wi = Some instSym
           \<and> HierPath \<lparr>symName = symName p,
                        namepath = butlast (namepath p)
                                   @ [InnerRefAttr (mName oldDut) instSym,
                                      FlatSymbolRefAttr (mName wrapper)]\<rparr>
               \<in> set (cBody (circuit r))
           \<and> Module shell \<in> set (cBody (circuit r)) \<and> mName shell = mName oldDut
           \<and> retargeted (symName p) cloneName
                (filter (\<lambda>anno. \<not> (mv \<and> isClass anno dutAnnoClass)) (mAnnotations oldDut))
                (mAnnotations shell)
           \<and> list_all2 (\<lambda>q q'. retargeted (symName p) cloneName (pAnnotations q) (pAnnotations q'))
                (mPorts oldDut) (mPorts shell)"
proof -
  note facts = splitDUT_facts [OF split]
  have kept: "mAnnotations dut =
                filter (\<lambda>anno. \<not> (mv \<and> isClass anno dutAnnoClass)) (mAnnotations oldDut)"
    by (simp add: facts(8) newDUT_def)
  from used have inPaths: "symName p \<in> set (dutPathsOf dut)"
    unfolding dutPathsOf_iff kept facts(7) by auto
  let ?dp = "dutPathsOf dut" and ?dps = "dutPortSymsOf dut"
  let ?st0 = "\<lparr>circuitNS = ns, dutRenames = []\<rparr>"
  from facts(6) obtain instSym where sym: "instInnerSym wi = Some instSym" by blast
  from leaf have t: "touches (mName oldDut) p" by (rule leafMod_touches)
  with facts(1) have t': "touches (mName dut) p" by simp
  obtain xs ys xs' st1 out st2 ys' st' where
    xy: "front @ rest = xs @ HierPath p # ys"
    and px: "processNLAs dut wrapper wi ?dp ?dps xs ?st0 = Inr (xs', st1)"
    and step: "processNLA dut wrapper wi ?dp ?dps p st1 = Inr (out, st2)"
    and py: "processNLAs dut wrapper wi ?dp ?dps ys st2 = Inr (ys', st')"
    and out: "HierPath ` set out \<subseteq> set (cBody (circuit r))"
    and shell: "Module (retargetDut (dutRenames st') dut) \<in> set (cBody (circuit r))"
    by (rule run_at_pathE [OF pre split run p t])
  txt \<open>The path is not rooted at the DUT, and it is no port path.\<close>
  have notroot: "root p \<noteq> Some (mName dut)"
  proof
    assume r: "root p = Some (mName dut)"
    with wf leaf facts(1) have "length (namepath p) = 1" by (simp add: root_leaf_single)
    with step r show False by (simp add: processNLA_root)
  qed
  from md have "ref p = None" by (simp add: isModule_def isComponent_def)
  then have notport: "\<not> portLeaf (mName dut) ?dps p" by (simp add: portLeaf_def)
  txt \<open>The step: a clone, and the path with the hierarchy added.\<close>
  from addHierarchy_touching [OF t' sym] obtain before d behind where
    np: "namepath p = before @ d # behind" and d: "modPart d = mName dut"
    and add: "addHierarchy p dut wi =
               Inr (p\<lparr>namepath :=
                      before
                      @ [InnerRefAttr (mName dut) instSym,
                         (case d of
                            InnerRefAttr m s \<Rightarrow> InnerRefAttr (instModuleName wi) s
                          | FlatSymbolRefAttr m \<Rightarrow> FlatSymbolRefAttr (instModuleName wi))]
                      @ behind\<rparr>)"
    by blast
  from leaf facts(1) have leaf': "leafMod p = Some (mName dut)" by simp
  from module_leaf_namepath [OF leaf' md wf np d]
  have shape: "behind = []" "d = FlatSymbolRefAttr (mName dut)" "before = butlast (namepath p)"
    by simp_all
  let ?p' = "\<lparr>symName = symName p,
              namepath = butlast (namepath p)
                         @ [InnerRefAttr (mName oldDut) instSym, FlatSymbolRefAttr (mName wrapper)]\<rparr>"
  from add shape facts(1,4) have add': "addHierarchy p dut wi = Inr ?p'" by simp
  let ?cloneName = "fst (newName (circuitNS st1) (symName p))"
  from step leaf' md inPaths
  have outs: "out = [fst (clonePath p st1), ?p']" and st2: "st2 = snd (clonePath p st1)"
    unfolding processNLA_extend [OF notroot notport] add' by simp_all
  have clone: "fst (clonePath p st1) = \<lparr>symName = ?cloneName, namepath = namepath p\<rparr>"
    by (simp add: clonePath_facts(1))
  from outs out clone
  have inClone: "HierPath \<lparr>symName = ?cloneName, namepath = namepath p\<rparr> \<in> set (cBody (circuit r))"
    and inPath: "HierPath ?p' \<in> set (cBody (circuit r))"
    by auto
  txt \<open>The clone's symbol is new.\<close>
  from processNLAs_ns_mono [OF px] facts(3)
  have sub: "set (circuitNamespace c) \<subseteq> set (circuitNS st1)"
    and win: "mName wrapper \<in> set (circuitNS st1)"
    by auto
  have fresh: "?cloneName \<notin> set (circuitNS st1)" by (rule newName_fresh)
  with sub win have new: "?cloneName \<notin> set (circuitNamespace c)" "?cloneName \<noteq> mName wrapper"
    by auto
  from p have pin: "symName p \<in> set (circuitNamespace c)"
    by (force simp: circuitNamespace_def)
  with new(1) have diff: "?cloneName \<noteq> symName p" by auto
  txt \<open>The renames map the path's symbol to the clone's, to the end of the loop.\<close>
  from uniq prerequisites_body [OF pre] have "distinct (map topSymbol (front @ rest))"
    by simp
  then have dist: "distinct (map topSymbol (xs @ HierPath p # ys))" by (simp only: xy)
  have nokey: "map_of (dutRenames st1) (symName p) = None"
  proof (rule ccontr)
    assume "map_of (dutRenames st1) (symName p) \<noteq> None"
    then have "symName p \<in> fst ` set (dutRenames st1)"
      by (auto simp: map_of_eq_None_iff)
    from processNLAs_rename_keys [OF px this]
    obtain q where "HierPath q \<in> set xs" "symName q = symName p" by auto
    with distinct_symbols_before [OF dist] show False by blast
  qed
  then have "map_of (dutRenames st2) (symName p) = Some ?cloneName"
    by (simp add: st2 clonePath_facts(3) map_add_def)
  from processNLAs_renames_kept [OF py this]
  have key: "map_of (dutRenames st') (symName p) = Some ?cloneName" .
  txt \<open>No clone is named like the path.\<close>
  have py': "processNLAs dut wrapper wi ?dp ?dps (xs @ HierPath p # ys) ?st0
               = Inr (xs' @ map HierPath out @ ys', st')"
    using px step py t' by (simp add: processNLAs_append)
  have noval: "symName p \<notin> snd ` set (dutRenames st')"
  proof
    assume "symName p \<in> snd ` set (dutRenames st')"
    moreover from pin facts(3) have "symName p \<in> set (circuitNS ?st0)" by simp
    ultimately have "symName p \<in> snd ` set (dutRenames ?st0)"
      by (rule processNLAs_rename_values [OF py'])
    then show False by simp
  qed
  txt \<open>The annotations of the new DUT and of its ports.\<close>
  let ?shell = "retargetDut (dutRenames st') dut"
  have "retargeted (symName p) ?cloneName (mAnnotations dut) (mAnnotations ?shell)"
    using retarget_retargeted [OF key noval, of "mAnnotations dut"]
    by (simp add: retargetDut_def)
  then have annos: "retargeted (symName p) ?cloneName
                (filter (\<lambda>anno. \<not> (mv \<and> isClass anno dutAnnoClass)) (mAnnotations oldDut))
                (mAnnotations ?shell)"
    by (simp only: kept)
  have "list_all2 (\<lambda>q q'. retargeted (symName p) ?cloneName (pAnnotations q) (pAnnotations q'))
                (mPorts dut) (mPorts ?shell)"
    using retargetDut_ports [of "dutRenames st'" dut] retarget_retargeted [OF key noval]
    by (auto elim!: list_all2_mono)
  then have ports: "list_all2 (\<lambda>q q'. retargeted (symName p) ?cloneName (pAnnotations q) (pAnnotations q'))
                (mPorts oldDut) (mPorts ?shell)"
    by (simp only: facts(7))
  have name: "mName ?shell = mName oldDut" by (simp add: retargetDut_def facts(1))
  show ?thesis
    apply (rule exI [of _ ?cloneName], rule exI [of _ instSym], rule exI [of _ ?shell])
    using new diff inClone sym inPath shell name annos ports
    apply (intro conjI)
             apply assumption+
    done
qed

theorem shared_module_path_cloned_witness:
  "\<exists>cloneName instSym shell.
     cloneName \<notin> set (circuitNamespace (exCircuit [exDirective]))
     \<and> cloneName \<noteq> ''nla1''
     \<and> HierPath \<lparr>symName = cloneName,
                  namepath = [InnerRefAttr ''Top'' ''d'', FlatSymbolRefAttr ''D'']\<rparr>
         \<in> set exResultBody
     \<and> HierPath \<lparr>symName = ''nla1'',
                  namepath = [InnerRefAttr ''Top'' ''d'', InnerRefAttr ''D'' instSym,
                              FlatSymbolRefAttr ''Wrapper'']\<rparr>
         \<in> set exResultBody
     \<and> Module shell \<in> set exResultBody \<and> mName shell = ''D''
     \<and> retargeted ''nla1'' cloneName [exMarkDut, exLocal, exScoped] (mAnnotations shell)"
proof -
  have p: "HierPath exNla1 \<in> set (cBody (exCircuit [exDirective]))"
    by (simp add: exCircuit_def exBody_def)
  have leaf: "leafMod exNla1 = Some (mName exD)" and md: "isModule exNla1"
    and wf: "distinct (map modPart (namepath exNla1))"
    and uniq: "distinct (map topSymbol (cBody (exCircuit [exDirective])))"
    by code_simp+
  have "\<exists>anno \<in> set (mAnnotations exD).
          nonlocalOf anno = Some (symName exNla1) \<and> \<not> (False \<and> isClass anno dutAnnoClass)"
    by code_simp
  then have used: "(\<exists>anno \<in> set (mAnnotations exD).
                      nonlocalOf anno = Some (symName exNla1)
                      \<and> \<not> (False \<and> isClass anno dutAnnoClass))
                   \<or> (\<exists>q \<in> set (mPorts exD). \<exists>anno \<in> set (pAnnotations q).
                         nonlocalOf anno = Some (symName exNla1))"
    by (rule disjI1)
  have vals: "symName exNla1 = ''nla1''" "mName exD = ''D''" "mName exWrapper = ''Wrapper''"
    "namepath exNla1 = [InnerRefAttr ''Top'' ''d'', FlatSymbolRefAttr ''D'']"
    "butlast (namepath exNla1) = [InnerRefAttr ''Top'' ''d'']"
    "filter (\<lambda>anno. \<not> (False \<and> isClass anno dutAnnoClass)) (mAnnotations exD)
       = [exMarkDut, exLocal, exScoped]"
    by code_simp+
  from shared_module_path_cloned
         [OF example_prerequisites example_split example_run p leaf md used wf uniq]
  show ?thesis
    unfolding vals by auto
qed

text \<open>
  With the flag set, a DUT whose marker is scoped by the path \<open>nla1\<close>, a module path that ends
  at the DUT: the symbol of the path is used by an annotation of the old DUT, and the run makes
  no clone. The result has the one path, with the extra level of hierarchy; the marker is on
  the wrapper and still names that path, and the new DUT has no annotation.
\<close>

theorem moved_marker_path_not_cloned:
  "leafMod exNla1 = Some (mName exMarked) \<and> isModule exNla1
   \<and> symName exNla1 \<in> set (dutPathsOf exMarked)
   \<and> runOnOperation
        \<lparr>cAnnotations = [exDirectiveMove],
         cBody = [HierPath exNla1, Module exTop, Module exMarked]\<rparr> =
       Inr \<lparr>diagnostics = [], passFailed = False, allAnalysesPreserved = False,
            circuit =
              \<lparr>cAnnotations = [exDirectiveMove],
               cBody =
                 [HierPath \<lparr>symName = ''nla1'',
                            namepath = [InnerRefAttr ''Top'' ''d'', InnerRefAttr ''D'' ''Wrapper'',
                                        FlatSymbolRefAttr ''Wrapper'']\<rparr>,
                  Module exTop,
                  Module \<lparr>mName = ''Wrapper'', mVisibility = Public, mConvention = ''internal'',
                          mPorts = [exPortA], mAnnotations = [exMarkDutScoped], mBody = []\<rparr>,
                  Module \<lparr>mName = ''D'', mVisibility = Private, mConvention = ''internal'',
                          mPorts = [exPortA], mAnnotations = [],
                          mBody = [Instance exWrapperInst,
                                   Connect (InstanceResult ''Wrapper'' 0) (Argument 0)]\<rparr>]\<rparr>\<rparr>
   \<and> nonlocalOf exMarkDutScoped = Some ''nla1''"
  by code_simp

end
